theory Spec2Isabelle
  imports Complex_Main
begin

section \<open>Data model of \<open>matchms/networking/SimilarityNetwork.py\<close>\<close>

text \<open>
  Exceptions of the Python code are values. \<open>AssertionError\<close> carries the message of the
  failed \<open>assert\<close>, \<open>AttributeError\<close> the name of the attribute that the instance does
  not have, \<open>KeyError\<close> the missing dictionary key, \<open>ValueError\<close> the message of the
  \<open>raise\<close>. \<open>CollaboratorError\<close> stands for whatever \<open>get_top_hits\<close> may raise.
  \<open>BroadcastError\<close> is the failure of line 84 on two arrays whose lengths neither agree
  nor are 1: numpy from 1.25 on raises ValueError from the comparison itself, older numpy
  lets the comparison yield \<open>False\<close>, so that the \<open>assert\<close> fails.
\<close>

datatype error =
    AssertionError string
  | AttributeError string
  | KeyError string
  | IndexError
  | ValueError string
  | CollaboratorError string
  | BroadcastError

text \<open>
  A spectrum is read only through \<open>spec.get(key)\<close>. Identifier values are strings; scores
  are reals (no NaN). The scores object holds its queries and its references as
  one-dimensional numpy arrays of spectra.
\<close>

type_synonym spectrum = "string \<Rightarrow> string"

definition get :: "spectrum \<Rightarrow> string \<Rightarrow> string" where
  "get s key = s key"

record scores =
  references :: "spectrum list"
  queries :: "spectrum list"
  matrix :: "real list list"

text \<open>
  \<open>numpy.all(scores.queries == scores.references)\<close>. The comparison is element by element
  and broadcasts: arrays of the same length are compared position by position, an array
  of length 1 is compared with every element of the other array, and \<open>numpy.all\<close> of an
  empty result is \<open>True\<close>.
\<close>

definition numpy_all_equal :: "spectrum list \<Rightarrow> spectrum list \<Rightarrow> error + bool" where
  "numpy_all_equal qs rs =
     (if length qs = length rs then Inr (qs = rs)
      else if length qs = 1 then Inr (list_all (\<lambda>r. hd qs = r) rs)
      else if length rs = 1 then Inr (list_all (\<lambda>q. q = hd rs) qs)
      else Inl BroadcastError)"

text \<open>
  A string that went through a numpy string array, as the candidate identifiers do
  (\<open>numpy.array([...])\<close>, then \<open>str(ref_candidates[x])\<close>): the array pads with NUL characters
  and an element read from it has lost its trailing NUL characters.
\<close>

definition numpy_str :: "string \<Rightarrow> string" where
  "numpy_str s = rev (dropWhile (\<lambda>c. c = CHR 0x00) (rev s))"

text \<open>
  The collaborator \<open>get_top_hits\<close> is imported from \<open>networking_functions.py\<close>, a module
  other than the one verified here; it is a parameter of the model, called with the scores
  object and \<open>top_n\<close>, and it may raise. It returns two dictionaries keyed by identifier,
  \<open>similars_idx\<close> and \<open>similars_scores\<close>, holding for each identifier an array of
  positions among the references and the array of their scores, of the same length.
  The model keeps the two arrays of one identifier as one list of rows (position, score),
  so \<open>similars_idx[k]\<close> is \<open>map fst\<close> and \<open>similars_scores[k]\<close> is \<open>map snd\<close> of the entry.
\<close>

type_synonym top_hits = "string \<rightharpoonup> (nat \<times> real) list"

type_synonym edge = "string \<times> string \<times> real"

text \<open>
  \<open>networkx.Graph\<close>: a node set and a symmetric adjacency dictionary of dictionaries;
  \<open>adj g u v = Some w\<close> says that the edge between \<open>u\<close> and \<open>v\<close> exists with weight \<open>w\<close>.
\<close>

record nx_graph =
  nodes :: "string set"
  adj :: "string \<Rightarrow> string \<rightharpoonup> real"

definition Graph :: nx_graph where
  "Graph = \<lparr>nodes = {}, adj = (\<lambda>u. Map.empty)\<rparr>"

definition add_nodes_from :: "string list \<Rightarrow> nx_graph \<Rightarrow> nx_graph" where
  "add_nodes_from ns g = g\<lparr>nodes := nodes g \<union> set ns\<rparr>"

text \<open>
  \<open>add_edge u v w\<close>: both endpoints become nodes when they are not yet, and the weight is
  written in both directions, replacing an older weight of the same pair.
\<close>

definition add_edge :: "string \<Rightarrow> string \<Rightarrow> real \<Rightarrow> nx_graph \<Rightarrow> nx_graph" where
  "add_edge u v w g =
     (let a1 = (adj g)(u := (adj g u)(v \<mapsto> w));
          a2 = a1(v := (a1 v)(u \<mapsto> w))
      in g\<lparr>nodes := insert v (insert u (nodes g)), adj := a2\<rparr>)"

fun add_weighted_edges_from :: "edge list \<Rightarrow> nx_graph \<Rightarrow> nx_graph" where
  "add_weighted_edges_from [] g = g"
| "add_weighted_edges_from ((u, v, w) # es) g =
     add_weighted_edges_from es (add_edge u v w g)"

text \<open>
  The instance. \<open>__init__\<close> assigns \<open>identifier\<close>, \<open>top_n\<close>, \<open>max_links\<close>,
  \<open>score_cutoff\<close> and \<open>graph\<close>. \<open>create_network\<close> also reads \<open>self.cutoff\<close> and
  \<open>self.link_method\<close>; an instance has them only when they were assigned from
  outside, so they are optional slots, \<open>None\<close> meaning that the attribute is absent.
\<close>

record similarity_network =
  identifier_key :: string
  top_n :: int
  max_links :: int
  score_cutoff :: real
  graph :: "nx_graph option"
  cutoff :: "real option"
  link_method :: "string option"

text \<open>\<open>__init__\<close> has no \<open>raise\<close> and no \<open>assert\<close>: it always returns the instance.\<close>

definition init :: "string \<Rightarrow> int \<Rightarrow> int \<Rightarrow> real \<Rightarrow> error + similarity_network" where
  "init ident tn ml sc =
     Inr \<lparr>identifier_key = ident, top_n = tn, max_links = ml, score_cutoff = sc,
          graph = None, cutoff = None, link_method = None\<rparr>"

section \<open>\<open>create_network\<close>\<close>

text \<open>Python's \<open>xs[:n]\<close>: a negative \<open>n\<close> counts from the end.\<close>

definition slice_to :: "int \<Rightarrow> 'a list \<Rightarrow> 'a list" where
  "slice_to n xs = (if 0 \<le> n then take (nat n) xs else take (nat (int (length xs) + n)) xs)"

text \<open>
  \<open>numpy.array([scores.references[x].get(self.identifier) for x in similars_idx[query_id]])\<close>;
  a position outside the references raises. The result lists the elements as they are read
  from the array.
\<close>

fun ref_candidates :: "spectrum list \<Rightarrow> string \<Rightarrow> nat list \<Rightarrow> error + string list" where
  "ref_candidates refs key [] = Inr []"
| "ref_candidates refs key (x # xs) =
     (if x < length refs
      then (case ref_candidates refs key xs of
              Inl e \<Rightarrow> Inl e
            | Inr cs \<Rightarrow> Inr (numpy_str (get (refs ! x) key) # cs))
      else Inl IndexError)"

text \<open>
  \<open>numpy.where((similars_scores[query_id] >= self.cutoff) & (ref_candidates != query_id))[0][:self.max_links]\<close>.
  The comparison of the string array with \<open>query_id\<close> treats both sides as padded with NUL
  characters, so it compares the array element with \<open>query_id\<close> less its trailing NULs.
\<close>

definition idx :: "real \<Rightarrow> string \<Rightarrow> int \<Rightarrow> real list \<Rightarrow> string list \<Rightarrow> nat list" where
  "idx c query_id ml sims cands =
     slice_to ml
       (filter (\<lambda>x. sims ! x \<ge> c \<and> cands ! x \<noteq> numpy_str query_id) [0..<length cands])"

text \<open>
  The comprehension of the \<open>"mutual"\<close> branch: the condition
  \<open>i in similars_idx[ref_candidates[x]]\<close> is evaluated for every \<open>x\<close>, with the array
  element as the key, and a key that the dictionary does not have raises.
\<close>

fun mutual_edges ::
  "top_hits \<Rightarrow> nat \<Rightarrow> string \<Rightarrow> real list \<Rightarrow> string list \<Rightarrow> nat list \<Rightarrow> error + edge list" where
  "mutual_edges th i query_id sims cands [] = Inr []"
| "mutual_edges th i query_id sims cands (x # xs) =
     (case th (cands ! x) of
        None \<Rightarrow> Inl (KeyError (cands ! x))
      | Some hits \<Rightarrow>
          (case mutual_edges th i query_id sims cands xs of
             Inl e \<Rightarrow> Inl e
           | Inr es \<Rightarrow>
               Inr (if i \<in> set (map fst hits)
                    then (query_id, cands ! x, sims ! x) # es else es)))"

text \<open>
  The body of the loop up to \<open>new_edges\<close>, for the query \<open>spec\<close> at position \<open>i\<close>. An edge
  goes from \<open>query_id\<close>, the string that \<open>spec.get\<close> returned, to \<open>str(ref_candidates[x])\<close>,
  the array element.
\<close>

definition new_edges ::
  "similarity_network \<Rightarrow> scores \<Rightarrow> top_hits \<Rightarrow> nat \<Rightarrow> spectrum \<Rightarrow> error + edge list" where
  "new_edges self sc th i spec =
     (let query_id = get spec (identifier_key self) in
      case th query_id of
        None \<Rightarrow> Inl (KeyError query_id)
      | Some hits \<Rightarrow>
          (case ref_candidates (references sc) (identifier_key self) (map fst hits) of
             Inl e \<Rightarrow> Inl e
           | Inr cands \<Rightarrow>
               (case cutoff self of
                  None \<Rightarrow> Inl (AttributeError ''cutoff'')
                | Some c \<Rightarrow>
                    (let ix = idx c query_id (max_links self) (map snd hits) cands in
                     case link_method self of
                       None \<Rightarrow> Inl (AttributeError ''link_method'')
                     | Some m \<Rightarrow>
                         if m = ''single''
                         then Inr (map (\<lambda>x. (query_id, cands ! x, map snd hits ! x)) ix)
                         else if m = ''mutual''
                         then mutual_edges th i query_id (map snd hits) cands ix
                         else Inl (ValueError ''Link method not kown'')))))"

text \<open>\<open>for i, spec in enumerate(scores.queries)\<close>, from position \<open>i\<close> on.\<close>

fun add_edges ::
  "similarity_network \<Rightarrow> scores \<Rightarrow> top_hits \<Rightarrow> nat \<Rightarrow> spectrum list \<Rightarrow> nx_graph
    \<Rightarrow> error + nx_graph" where
  "add_edges self sc th i [] msnet = Inr msnet"
| "add_edges self sc th i (spec # rest) msnet =
     (case new_edges self sc th i spec of
        Inl e \<Rightarrow> Inl e
      | Inr es \<Rightarrow> add_edges self sc th (Suc i) rest (add_weighted_edges_from es msnet))"

text \<open>
  \<open>create_network\<close> returns the exception it raised, if any, and the instance afterwards.
  The only assignment to the instance is \<open>self.graph = msnet\<close>, its last statement.
\<close>

definition create_network ::
  "(scores \<Rightarrow> int \<Rightarrow> error + top_hits) \<Rightarrow> similarity_network \<Rightarrow> scores
    \<Rightarrow> error option \<times> similarity_network" where
  "create_network get_top_hits self sc =
     (if \<not> top_n self \<ge> max_links self
      then (Some (AssertionError ''top_n must be >= max_links''), self)
      else
        (case numpy_all_equal (queries sc) (references sc) of
           Inl e \<Rightarrow> (Some e, self)
         | Inr ok \<Rightarrow>
             if \<not> ok
             then (Some (AssertionError
                           ''Expected symmetric scores object with queries==references''), self)
             else
               (let unique_ids = remdups (map (\<lambda>s. get s (identifier_key self)) (queries sc));
                    msnet = add_nodes_from unique_ids Graph
                in case get_top_hits sc (top_n self) of
                     Inl e \<Rightarrow> (Some e, self)
                   | Inr th \<Rightarrow>
                       (case add_edges self sc th 0 (queries sc) msnet of
                          Inl e \<Rightarrow> (Some e, self)
                        | Inr g \<Rightarrow> (None, self\<lparr>graph := Some g\<rparr>)))))"

text \<open>What the builder's graph slot holds: the nodes, and the weight for a pair of nodes.\<close>

definition stored_nodes :: "similarity_network \<Rightarrow> string set" where
  "stored_nodes self = (case graph self of None \<Rightarrow> {} | Some g \<Rightarrow> nodes g)"

definition stored_weight :: "similarity_network \<Rightarrow> string \<Rightarrow> string \<Rightarrow> real option" where
  "stored_weight self u v = (case graph self of None \<Rightarrow> None | Some g \<Rightarrow> adj g u v)"

section \<open>Notions used in the proofs\<close>

text \<open>An edge triple that links the pair \<open>a\<close>, \<open>b\<close>, in either direction.\<close>

definition touches :: "string \<Rightarrow> string \<Rightarrow> edge \<Rightarrow> bool" where
  "touches a b e \<longleftrightarrow> (fst e = a \<and> fst (snd e) = b) \<or> (fst e = b \<and> fst (snd e) = a)"

text \<open>The test \<open>i in similars_idx[v]\<close> with the missing key read as "no".\<close>

definition in_top_hits :: "top_hits \<Rightarrow> nat \<Rightarrow> string \<Rightarrow> bool" where
  "in_top_hits th i v = (case th v of None \<Rightarrow> False | Some hits \<Rightarrow> i \<in> set (map fst hits))"

text \<open>
  The identifiers \<open>a\<close> and \<open>b\<close> rank each other: every position of \<open>a\<close> is among the
  top hits of \<open>b\<close> and every position of \<open>b\<close> among those of \<open>a\<close>.
\<close>

definition reciprocal :: "top_hits \<Rightarrow> string list \<Rightarrow> string \<Rightarrow> string \<Rightarrow> bool" where
  "reciprocal th ids a b \<longleftrightarrow>
     (\<forall>i j. i < length ids \<and> j < length ids \<and> ids ! i = a \<and> ids ! j = b
        \<longrightarrow> in_top_hits th i b \<and> in_top_hits th j a)"

section \<open>Example inputs\<close>

text \<open>
  Three items A, B and C, identified under the key "spectrumid" (no other key is read),
  with the scores A-B = 0.9, A-C = 0.5, B-C = 0.3.
\<close>

definition spec_A :: spectrum where
  "spec_A = (\<lambda>key. if key = ''spectrumid'' then ''A'' else [])"

definition spec_B :: spectrum where
  "spec_B = (\<lambda>key. if key = ''spectrumid'' then ''B'' else [])"

definition spec_C :: spectrum where
  "spec_C = (\<lambda>key. if key = ''spectrumid'' then ''C'' else [])"

definition example_scores :: scores where
  "example_scores =
     \<lparr>references = [spec_A, spec_B, spec_C], queries = [spec_A, spec_B, spec_C],
      matrix = [[1, 9/10, 5/10], [9/10, 1, 3/10], [5/10, 3/10, 1]]\<rparr>"

text \<open>
  Modelled from the spec: \<open>get_top_hits\<close> of \<open>networking_functions.py\<close>, on the example
  only. For each item the spec ranks all other items by descending score and keeps the
  first \<open>n\<close>, keyed by the item's identifier. The ranking, as (position, score) rows:
  for A it is B (position 1) before C (position 2), and so on.
\<close>

definition example_ranking :: top_hits where
  "example_ranking =
     [''A'' \<mapsto> [(1, 9/10), (2, 5/10)],
      ''B'' \<mapsto> [(0, 9/10), (2, 3/10)],
      ''C'' \<mapsto> [(0, 5/10), (1, 3/10)]]"

definition example_hits :: "nat \<Rightarrow> top_hits" where
  "example_hits n = (\<lambda>k. map_option (take n) (example_ranking k))"

definition example_top_hits :: "scores \<Rightarrow> int \<Rightarrow> error + top_hits" where
  "example_top_hits sc n = Inr (example_hits (nat n))"

definition empty_scores :: scores where
  "empty_scores = \<lparr>references = [], queries = [], matrix = []\<rparr>"

text \<open>Modelled from the spec: \<open>get_top_hits\<close> on a scores object without items.\<close>

definition empty_top_hits :: "scores \<Rightarrow> int \<Rightarrow> error + top_hits" where
  "empty_top_hits sc n = Inr Map.empty"

text \<open>The same two items in different orders.\<close>

definition swapped_scores :: scores where
  "swapped_scores =
     \<lparr>references = [spec_B, spec_A], queries = [spec_A, spec_B],
      matrix = [[9/10, 1], [1, 9/10]]\<rparr>"

text \<open>One query against two references, each of them the item A.\<close>

definition broadcast_scores :: scores where
  "broadcast_scores = \<lparr>references = [spec_A, spec_A], queries = [spec_A], matrix = [[1], [1]]\<rparr>"

text \<open>
  Modelled from the spec: \<open>get_top_hits\<close> of \<open>networking_functions.py\<close>, on these scores
  only. The one other item of the query A is the reference at position 1, an item equal
  to A, with score 1.
\<close>

definition broadcast_top_hits :: "scores \<Rightarrow> int \<Rightarrow> error + top_hits" where
  "broadcast_top_hits sc n = Inr [''A'' \<mapsto> [(1, 1)]]"

text \<open>
  Three items of which the first and the third have the identifier A, with the scores
  0.9 between the first and B, 0.4 between the third and B, 0.2 between the first and the
  third.
\<close>

definition spec_A2 :: spectrum where
  "spec_A2 = (\<lambda>key. if key = ''spectrumid'' then ''A'' else ''2'')"

definition duplicate_scores :: scores where
  "duplicate_scores =
     \<lparr>references = [spec_A, spec_B, spec_A2], queries = [spec_A, spec_B, spec_A2],
      matrix = [[1, 9/10, 2/10], [9/10, 1, 4/10], [2/10, 4/10, 1]]\<rparr>"

text \<open>
  Modelled from the spec: \<open>get_top_hits\<close> of \<open>networking_functions.py\<close>, on these scores
  only, for \<open>n = 1\<close>. The best other item of the first item is B (position 1, 0.9), of B
  the first item (position 0, 0.9), of the third item B (position 1, 0.4). The dictionary
  is keyed by identifier and filled in the order of the items, so the entry that A keeps
  is the one of the third item.
\<close>

definition duplicate_top_hits :: "scores \<Rightarrow> int \<Rightarrow> error + top_hits" where
  "duplicate_top_hits sc n = Inr [''A'' \<mapsto> [(1, 4/10)], ''B'' \<mapsto> [(0, 9/10)]]"

text \<open>
  Two items whose identifiers are the letter A followed by a NUL character, and B, with
  score 0.9.
\<close>

definition spec_A0 :: spectrum where
  "spec_A0 = (\<lambda>key. if key = ''spectrumid'' then [CHR ''A'', CHR 0x00] else [])"

definition nul_scores :: scores where
  "nul_scores =
     \<lparr>references = [spec_A0, spec_B], queries = [spec_A0, spec_B],
      matrix = [[1, 9/10], [9/10, 1]]\<rparr>"

text \<open>
  Modelled from the spec: \<open>get_top_hits\<close> of \<open>networking_functions.py\<close>, on these scores
  only. Each item has the other one as its only candidate, and the dictionary is keyed by
  the item's identifier as \<open>spec.get\<close> returns it.
\<close>

definition nul_top_hits :: "scores \<Rightarrow> int \<Rightarrow> error + top_hits" where
  "nul_top_hits sc n = Inr [[CHR ''A'', CHR 0x00] \<mapsto> [(1, 9/10)], ''B'' \<mapsto> [(0, 9/10)]]"

text \<open>\<open>SimilarityNetwork()\<close>, all parameters at their defaults.\<close>

definition default_network :: similarity_network where
  "default_network =
     \<lparr>identifier_key = ''spectrumid'', top_n = 20, max_links = 10, score_cutoff = 7/10,
      graph = None, cutoff = None, link_method = None\<rparr>"

text \<open>An instance that holds a graph, with the one node X, from an earlier build.\<close>

definition built_network :: similarity_network where
  "built_network =
     default_network\<lparr>graph := Some (add_nodes_from [''X''] Graph), cutoff := Some (7/10),
                     link_method := Some ''single''\<rparr>"

text \<open>
  Instances on which \<open>cutoff\<close> and \<open>link_method\<close> were assigned after construction:
  \<open>top_n = 2\<close>, \<open>max_links = 2\<close>, cutoff 0.7, "single";
  \<open>top_n = 2\<close>, \<open>max_links = 1\<close>, cutoff 0.3, "single";
  \<open>top_n = 2\<close>, \<open>max_links = -1\<close>, cutoff 0.3, "single";
  \<open>top_n = 1\<close>, \<open>max_links = 1\<close>, cutoff 0.3, the link method left open.
\<close>

definition single_network :: similarity_network where
  "single_network =
     default_network\<lparr>top_n := 2, max_links := 2, cutoff := Some (7/10),
                     link_method := Some ''single''\<rparr>"

definition capped_network :: similarity_network where
  "capped_network =
     default_network\<lparr>top_n := 2, max_links := 1, cutoff := Some (3/10),
                     link_method := Some ''single''\<rparr>"

definition negative_network :: similarity_network where
  "negative_network =
     default_network\<lparr>top_n := 2, max_links := - 1, cutoff := Some (3/10),
                     link_method := Some ''single''\<rparr>"

definition top1_network :: similarity_network where
  "top1_network = default_network\<lparr>top_n := 1, max_links := 1, cutoff := Some (3/10)\<rparr>"

section \<open>Evaluation and basic facts\<close>

lemmas example_defs = spec_A_def spec_B_def spec_C_def example_scores_def
  example_top_hits_def example_hits_def example_ranking_def empty_scores_def
  empty_top_hits_def swapped_scores_def broadcast_scores_def broadcast_top_hits_def
  spec_A2_def duplicate_scores_def duplicate_top_hits_def
  spec_A0_def nul_scores_def nul_top_hits_def default_network_def built_network_def
  single_network_def capped_network_def negative_network_def top1_network_def

lemmas run_defs = create_network_def new_edges_def get_def idx_def slice_to_def upt_rec
  add_nodes_from_def Graph_def add_edge_def Let_def stored_weight_def stored_nodes_def
  numpy_all_equal_def numpy_str_def


lemma create_network_success:
  assumes "create_network gth self sc = (None, self')"
  shows "\<exists>th g. max_links self \<le> top_n self \<and>
           numpy_all_equal (queries sc) (references sc) = Inr True \<and>
           gth sc (top_n self) = Inr th \<and>
           add_edges self sc th 0 (queries sc)
             (add_nodes_from (remdups (map (\<lambda>s. get s (identifier_key self)) (queries sc))) Graph)
               = Inr g \<and>
           self' = self\<lparr>graph := Some g\<rparr>"
  using assms
  by (simp add: create_network_def Let_def split: if_splits sum.splits)

lemma numpy_all_equal_same: "numpy_all_equal qs qs = Inr True"
  by (simp add: numpy_all_equal_def)

text \<open>When the comparison passes and there is a query, every reference is a query.\<close>

lemma numpy_all_equal_subset:
  assumes "numpy_all_equal qs rs = Inr True" and "qs \<noteq> []"
  shows "set rs \<subseteq> set qs"
proof (cases "length qs = length rs")
  case True
  with assms(1) show ?thesis by (simp add: numpy_all_equal_def)
next
  case False
  show ?thesis
  proof (cases "length qs = 1")
    case True
    then obtain q where q: "qs = [q]" by (cases qs) auto
    with assms(1) False have "list_all (\<lambda>r. q = r) rs"
      by (simp add: numpy_all_equal_def)
    then show ?thesis by (auto simp: q list_all_iff)
  next
    case ne: False
    with assms(1) False have r: "length rs = 1" and a: "list_all (\<lambda>q. q = hd rs) qs"
      by (auto simp: numpy_all_equal_def split: if_splits)
    from r obtain r' where r': "rs = [r']" by (cases rs) auto
    from assms(2) obtain q qs' where "qs = q # qs'" by (cases qs) auto
    with a r' show ?thesis by simp
  qed
qed

lemma numpy_str_idem: "numpy_str (numpy_str s) = numpy_str s"
  by (simp add: numpy_str_def)

lemma ref_candidates_valid:
  "\<forall>x \<in> set xs. x < length refs \<Longrightarrow>
     ref_candidates refs key xs = Inr (map (\<lambda>x. numpy_str (get (refs ! x) key)) xs)"
  by (induction xs) auto

lemma ref_candidates_Inr:
  "ref_candidates refs key xs = Inr cs \<Longrightarrow>
     cs = map (\<lambda>x. numpy_str (get (refs ! x) key)) xs \<and> (\<forall>x \<in> set xs. x < length refs)"
  by (induction xs arbitrary: cs) (auto split: if_splits sum.splits)

lemma new_edges_unsupported:
  assumes "link_method self = Some m" and "m \<noteq> ''single''" and "m \<noteq> ''mutual''"
  shows "\<exists>e. new_edges self sc th i spec = Inl e"
  using assms by (auto simp: new_edges_def Let_def split: option.splits sum.splits)

text \<open>
  No instance that comes out of \<open>__init__\<close> unchanged can build a network for a
  non-empty scores object: the first iteration of the loop raises.
\<close>

lemma init_never_builds:
  assumes "init ident tn ml c = Inr self" and "queries sc \<noteq> []"
  shows "fst (create_network gth self sc) \<noteq> None"
proof
  assume "fst (create_network gth self sc) = None"
  then have "create_network gth self sc = (None, snd (create_network gth self sc))"
    by (metis prod.collapse)
  from create_network_success [OF this] obtain th g where
    g: "add_edges self sc th 0 (queries sc)
          (add_nodes_from (remdups (map (\<lambda>s. get s (identifier_key self)) (queries sc))) Graph)
            = Inr g"
    by blast
  obtain spec rest where q: "queries sc = spec # rest"
    using assms(2) by (cases "queries sc") auto
  have c: "cutoff self = None" using assms(1) by (auto simp: init_def)
  have "\<exists>e. new_edges self sc th 0 spec = Inl e"
    by (auto simp: new_edges_def Let_def c split: option.splits sum.splits)
  with g show False unfolding q by auto
qed

section \<open>The graph and the loop\<close>

lemma adj_add_edge:
  "adj (add_edge u v w g) a b =
     (if (a = u \<and> b = v) \<or> (a = v \<and> b = u) then Some w else adj g a b)"
  by (auto simp: add_edge_def Let_def)

lemma nodes_add_edge: "nodes (add_edge u v w g) = insert v (insert u (nodes g))"
  by (simp add: add_edge_def Let_def)

lemma nodes_add_weighted_edges_from:
  "nodes (add_weighted_edges_from es g) = nodes g \<union> fst ` set es \<union> (fst \<circ> snd) ` set es"
  by (induction es g rule: add_weighted_edges_from.induct) (auto simp: nodes_add_edge)

lemma adj_add_weighted_edges_from_Some:
  "adj (add_weighted_edges_from es g) a b = Some w \<Longrightarrow>
     adj g a b = Some w \<or> (a, b, w) \<in> set es \<or> (b, a, w) \<in> set es"
  by (induction es g rule: add_weighted_edges_from.induct)
     (auto simp: adj_add_edge split: if_splits)

lemma linked_add_weighted_edges_from:
  "adj (add_weighted_edges_from es g) a b \<noteq> None \<longleftrightarrow>
     adj g a b \<noteq> None \<or> (\<exists>w. (a, b, w) \<in> set es \<or> (b, a, w) \<in> set es)"
  by (induction es g rule: add_weighted_edges_from.induct)
     (auto simp: adj_add_edge split: if_splits)

lemma add_edges_invariant:
  assumes "add_edges self sc th i qs g = Inr g'" and "P g"
    and "\<And>j spec es h. spec \<in> set qs \<Longrightarrow> new_edges self sc th j spec = Inr es \<Longrightarrow> P h
           \<Longrightarrow> P (add_weighted_edges_from es h)"
  shows "P g'"
  using assms
proof (induction qs arbitrary: i g)
  case Nil
  then show ?case by simp
next
  case (Cons spec rest)
  from Cons.prems(1) obtain es where
    es: "new_edges self sc th i spec = Inr es"
    and rest: "add_edges self sc th (Suc i) rest (add_weighted_edges_from es g) = Inr g'"
    by (auto split: sum.splits)
  have "P (add_weighted_edges_from es g)"
    using Cons.prems(3) [OF _ es Cons.prems(2)] by simp
  with rest show ?case
    using Cons.IH Cons.prems(3) by (metis list.set_intros(2))
qed

lemma set_slice_to: "set (slice_to n xs) \<subseteq> set xs"
  by (auto simp: slice_to_def dest: in_set_takeD)

lemma length_slice_to: "0 \<le> n \<Longrightarrow> int (length (slice_to n xs)) \<le> n"
  by (simp add: slice_to_def)

lemma idx_member:
  "x \<in> set (idx c q ml sims cands) \<Longrightarrow>
     x < length cands \<and> c \<le> sims ! x \<and> cands ! x \<noteq> numpy_str q"
  using set_slice_to
          [of ml "filter (\<lambda>x. sims ! x \<ge> c \<and> cands ! x \<noteq> numpy_str q) [0..<length cands]"]
  by (auto simp: idx_def)

lemma mutual_edges_subset:
  "mutual_edges th i q sims cands xs = Inr es \<Longrightarrow>
     set es \<subseteq> (\<lambda>x. (q, cands ! x, sims ! x)) ` set xs \<and> length es \<le> length xs"
  by (induction xs arbitrary: es) (auto split: option.splits sum.splits if_splits)

text \<open>What the loop body proposes, whichever the link method.\<close>

lemma new_edges_proposal:
  assumes "new_edges self sc th i spec = Inr es" and "(u, v, w) \<in> set es"
  shows "u = get spec (identifier_key self) \<and> v \<noteq> u \<and>
         (\<exists>c. cutoff self = Some c \<and> c \<le> w) \<and>
         v \<in> (\<lambda>s. numpy_str (get s (identifier_key self))) ` set (references sc)"
proof -
  let ?q = "get spec (identifier_key self)"
  from assms(1) obtain hits cands c m where
    hits: "th ?q = Some hits"
    and cands: "ref_candidates (references sc) (identifier_key self) (map fst hits) = Inr cands"
    and c: "cutoff self = Some c" and m: "link_method self = Some m"
    by (auto simp: new_edges_def Let_def split: option.splits sum.splits)
  let ?ix = "idx c ?q (max_links self) (map snd hits) cands"
  have "set es \<subseteq> (\<lambda>x. (?q, cands ! x, map snd hits ! x)) ` set ?ix"
    using assms(1) hits cands c m mutual_edges_subset [of th i ?q "map snd hits" cands ?ix es]
    by (auto simp: new_edges_def Let_def split: if_splits)
  with assms(2) obtain x where x: "x \<in> set ?ix" "u = ?q" "v = cands ! x" "w = map snd hits ! x"
    by auto
  from idx_member [OF x(1)]
  have px: "x < length cands" "c \<le> map snd hits ! x" "cands ! x \<noteq> numpy_str ?q"
    by auto
  from ref_candidates_Inr [OF cands]
  have cs: "cands = map (\<lambda>x. numpy_str (get (references sc ! x) (identifier_key self)))
                      (map fst hits)"
    and valid: "\<forall>x \<in> set (map fst hits). x < length (references sc)" by auto
  have lx: "x < length (map fst hits)" using px(1) cs by simp
  then have "map fst hits ! x \<in> set (map fst hits)" by (rule nth_mem)
  with valid have p: "map fst hits ! x < length (references sc)" by blast
  have vx: "v = numpy_str (get (references sc ! (map fst hits ! x)) (identifier_key self))"
    unfolding x(3) using lx by (subst cs) (simp only: nth_map length_map)
  with p have mem: "v \<in> (\<lambda>s. numpy_str (get s (identifier_key self))) ` set (references sc)"
    by (metis image_eqI nth_mem)
  have "v \<noteq> u"
  proof
    assume "v = u"
    then have "numpy_str ?q = numpy_str v" by (simp add: x(2))
    also have "\<dots> = v" unfolding vx by (rule numpy_str_idem)
    finally show False using px(3) x(3) by simp
  qed
  with x px c mem show ?thesis by auto
qed

lemma new_edges_length:
  assumes "new_edges self sc th i spec = Inr es" and "0 \<le> max_links self"
  shows "int (length es) \<le> max_links self"
proof -
  let ?q = "get spec (identifier_key self)"
  from assms(1) obtain hits cands c m where
    hits: "th ?q = Some hits"
    and cands: "ref_candidates (references sc) (identifier_key self) (map fst hits) = Inr cands"
    and c: "cutoff self = Some c" and m: "link_method self = Some m"
    by (auto simp: new_edges_def Let_def split: option.splits sum.splits)
  let ?ix = "idx c ?q (max_links self) (map snd hits) cands"
  have "length es \<le> length ?ix"
    using assms(1) hits cands c m mutual_edges_subset [of th i ?q "map snd hits" cands ?ix es]
    by (auto simp: new_edges_def Let_def split: if_splits)
  moreover have "int (length ?ix) \<le> max_links self"
    unfolding idx_def by (rule length_slice_to [OF assms(2)])
  ultimately show ?thesis by linarith
qed

text \<open>
  What every successful build stores: every identifier of a query is a node, every other
  node is such an identifier less its trailing NUL characters, and every edge joins two
  different nodes with a weight of at least the \<open>cutoff\<close> attribute.
\<close>

lemma built_graph:
  assumes "create_network gth self sc = (None, self')"
  obtains g where "graph self' = Some g"
    and "(\<lambda>s. get s (identifier_key self)) ` set (queries sc) \<subseteq> nodes g"
    and "nodes g \<subseteq> (\<lambda>s. get s (identifier_key self)) ` set (queries sc)
                   \<union> (\<lambda>s. numpy_str (get s (identifier_key self))) ` set (queries sc)"
    and "\<And>a b w. adj g a b = Some w \<Longrightarrow>
           a \<in> nodes g \<and> b \<in> nodes g \<and> a \<noteq> b \<and> (\<exists>c. cutoff self = Some c \<and> c \<le> w)"
proof -
  define ids where "ids = (\<lambda>s. get s (identifier_key self)) ` set (queries sc)"
  define sids where "sids = (\<lambda>s. numpy_str (get s (identifier_key self))) ` set (queries sc)"
  define ok where "ok = (\<lambda>(h::nx_graph) (a::string) (b::string) (w::real).
     a \<in> nodes h \<and> b \<in> nodes h \<and> a \<noteq> b \<and> (\<exists>c. cutoff self = Some c \<and> c \<le> w))"
  define P where "P = (\<lambda>h::nx_graph. ids \<subseteq> nodes h \<and> nodes h \<subseteq> ids \<union> sids \<and>
                         (\<forall>a b w. adj h a b = Some w \<longrightarrow> ok h a b w))"
  let ?g0 = "add_nodes_from (remdups (map (\<lambda>s. get s (identifier_key self)) (queries sc))) Graph"
  from create_network_success [OF assms] obtain th g where
    sym: "numpy_all_equal (queries sc) (references sc) = Inr True"
    and run: "add_edges self sc th 0 (queries sc) ?g0 = Inr g"
    and self': "self' = self\<lparr>graph := Some g\<rparr>"
    by blast
  have init: "P ?g0"
    by (simp add: P_def ids_def add_nodes_from_def Graph_def)
  have step: "P (add_weighted_edges_from es h)"
    if spec: "spec \<in> set (queries sc)" and es: "new_edges self sc th j spec = Inr es"
      and h: "P h" for j spec es h
  proof -
    let ?h' = "add_weighted_edges_from es h"
    have "queries sc \<noteq> []" using spec by auto
    from numpy_all_equal_subset [OF sym this]
    have refs: "set (references sc) \<subseteq> set (queries sc)" .
    have q: "get spec (identifier_key self) \<in> ids"
      using spec by (simp add: ids_def)
    have pr: "u \<in> ids \<and> v \<in> sids \<and> u \<noteq> v \<and> (\<exists>c. cutoff self = Some c \<and> c \<le> w)"
      if "(u, v, w) \<in> set es" for u v w
      using new_edges_proposal [OF es that] refs q by (auto simp: sids_def)
    have sub: "nodes h \<subseteq> nodes ?h'"
      by (auto simp: nodes_add_weighted_edges_from)
    have ends: "u \<in> nodes ?h' \<and> v \<in> nodes ?h'" if "(u, v, w) \<in> set es" for u v w
      using that by (force simp: nodes_add_weighted_edges_from)
    have "fst ` set es \<subseteq> ids" "(fst \<circ> snd) ` set es \<subseteq> sids"
      using pr by force+
    then have n: "ids \<subseteq> nodes ?h'" "nodes ?h' \<subseteq> ids \<union> sids"
      using h unfolding P_def nodes_add_weighted_edges_from by blast+
    have "ok ?h' a b w" if "adj ?h' a b = Some w" for a b w
    proof -
      from adj_add_weighted_edges_from_Some [OF that]
      consider "adj h a b = Some w" | "(a, b, w) \<in> set es" | "(b, a, w) \<in> set es" by blast
      then show ?thesis
      proof cases
        case 1
        with h have "ok h a b w" unfolding P_def by blast
        with sub show ?thesis unfolding ok_def by blast
      next
        case 2
        from pr [OF 2] ends [OF 2] show ?thesis unfolding ok_def by simp
      next
        case 3
        from pr [OF 3] ends [OF 3] show ?thesis unfolding ok_def by auto
      qed
    qed
    with n show ?thesis unfolding P_def by blast
  qed
  have "P g"
    using run init step by (rule add_edges_invariant)
  then have 1: "(\<lambda>s. get s (identifier_key self)) ` set (queries sc) \<subseteq> nodes g"
    and 2: "nodes g \<subseteq> (\<lambda>s. get s (identifier_key self)) ` set (queries sc)
                   \<union> (\<lambda>s. numpy_str (get s (identifier_key self))) ` set (queries sc)"
    and 3: "\<And>a b w. adj g a b = Some w \<Longrightarrow> ok g a b w"
    unfolding P_def ids_def sids_def by blast+
  have 4: "a \<in> nodes g \<and> b \<in> nodes g \<and> a \<noteq> b \<and> (\<exists>c. cutoff self = Some c \<and> c \<le> w)"
    if "adj g a b = Some w" for a b w
    using 3 [OF that] unfolding ok_def by simp
  have "graph self' = Some g" using self' by simp
  then show ?thesis using 1 2 4 by (rule that)
qed

text \<open>
  When no identifier ends in a NUL character, the nodes are exactly the identifiers.
\<close>

lemma built_graph_nodes:
  assumes "create_network gth self sc = (None, self')" and "graph self' = Some g"
    and "\<forall>s \<in> set (queries sc). numpy_str (get s (identifier_key self)) = get s (identifier_key self)"
  shows "nodes g = (\<lambda>s. get s (identifier_key self)) ` set (queries sc)"
  using assms(1)
proof (rule built_graph)
  fix g'
  assume g': "graph self' = Some g'"
    and 1: "(\<lambda>s. get s (identifier_key self)) ` set (queries sc) \<subseteq> nodes g'"
    and 2: "nodes g' \<subseteq> (\<lambda>s. get s (identifier_key self)) ` set (queries sc)
                   \<union> (\<lambda>s. numpy_str (get s (identifier_key self))) ` set (queries sc)"
  have "(\<lambda>s. numpy_str (get s (identifier_key self))) ` set (queries sc)
          = (\<lambda>s. get s (identifier_key self)) ` set (queries sc)"
    using assms(3) by (intro image_cong) simp_all
  with 1 2 have "nodes g' = (\<lambda>s. get s (identifier_key self)) ` set (queries sc)"
    by auto
  moreover have "g' = g" using g' assms(2) by simp
  ultimately show ?thesis by simp
qed

text \<open>
  The build returns whenever the preconditions hold, \<open>cutoff\<close> is set, \<open>link_method\<close> is
  "single" or "mutual", and the collaborator returns an entry for the identifier of every
  query, with positions of references, and an entry for every candidate key.
\<close>

lemma mutual_edges_returns:
  "\<forall>x \<in> set xs. th (cands ! x) \<noteq> None \<Longrightarrow>
     \<exists>es. mutual_edges th i q sims cands xs = Inr es"
  by (induction xs) (auto split: option.splits sum.splits)

lemma new_edges_returns:
  assumes c: "cutoff self = Some c"
    and m: "link_method self = Some ''single'' \<or> link_method self = Some ''mutual''"
    and th: "\<forall>s \<in> set (queries sc). \<exists>hits. th (get s (identifier_key self)) = Some hits \<and>
               (\<forall>x \<in> set hits. fst x < length (references sc))"
    and keys: "\<forall>s \<in> set (references sc). th (numpy_str (get s (identifier_key self))) \<noteq> None"
    and spec: "spec \<in> set (queries sc)"
  shows "\<exists>es. new_edges self sc th i spec = Inr es"
proof -
  let ?q = "get spec (identifier_key self)"
  from th spec obtain hits where hits: "th ?q = Some hits"
    and valid: "\<forall>x \<in> set hits. fst x < length (references sc)"
    by blast
  let ?cands = "map (\<lambda>x. numpy_str (get (references sc ! x) (identifier_key self))) (map fst hits)"
  have cands: "ref_candidates (references sc) (identifier_key self) (map fst hits) = Inr ?cands"
    using valid by (intro ref_candidates_valid) auto
  let ?ix = "idx c ?q (max_links self) (map snd hits) ?cands"
  have "th (?cands ! x) \<noteq> None" if "x \<in> set ?ix" for x
  proof -
    from idx_member [OF that] have x: "x < length hits" by simp
    then have "fst (hits ! x) < length (references sc)" using valid by simp
    then have "references sc ! fst (hits ! x) \<in> set (references sc)" by simp
    with keys
    have "th (numpy_str (get (references sc ! fst (hits ! x)) (identifier_key self))) \<noteq> None"
      by blast
    with x show ?thesis by simp
  qed
  then obtain es where "mutual_edges th i ?q (map snd hits) ?cands ?ix = Inr es"
    using mutual_edges_returns [of ?ix th ?cands i ?q "map snd hits"] by blast
  with m hits cands c show ?thesis
    by (auto simp: new_edges_def Let_def)
qed

lemma add_edges_returns:
  assumes c: "cutoff self = Some c"
    and m: "link_method self = Some ''single'' \<or> link_method self = Some ''mutual''"
    and th: "\<forall>s \<in> set (queries sc). \<exists>hits. th (get s (identifier_key self)) = Some hits \<and>
               (\<forall>x \<in> set hits. fst x < length (references sc))"
    and keys: "\<forall>s \<in> set (references sc). th (numpy_str (get s (identifier_key self))) \<noteq> None"
    and qs: "set qs \<subseteq> set (queries sc)"
  shows "\<exists>g'. add_edges self sc th i qs g = Inr g'"
  using qs
proof (induction qs arbitrary: i g)
  case Nil
  then show ?case by simp
next
  case (Cons spec rest)
  then have "spec \<in> set (queries sc)" by simp
  from new_edges_returns [OF c m th keys this] obtain es where
    "new_edges self sc th i spec = Inr es" by blast
  moreover from Cons have
    "\<exists>g'. add_edges self sc th (Suc i) rest (add_weighted_edges_from es g) = Inr g'"
    by simp
  ultimately show ?case by simp
qed

lemma create_network_returns:
  assumes "max_links self \<le> top_n self"
    and sym: "numpy_all_equal (queries sc) (references sc) = Inr True"
    and c: "cutoff self = Some c"
    and m: "link_method self = Some ''single'' \<or> link_method self = Some ''mutual''"
    and gth: "gth sc (top_n self) = Inr th"
    and th: "\<forall>s \<in> set (queries sc). \<exists>hits. th (get s (identifier_key self)) = Some hits \<and>
               (\<forall>x \<in> set hits. fst x < length (references sc))"
    and keys: "\<forall>s \<in> set (references sc). th (numpy_str (get s (identifier_key self))) \<noteq> None"
  shows "\<exists>g. create_network gth self sc = (None, self\<lparr>graph := Some g\<rparr>)"
proof -
  let ?g0 = "add_nodes_from (remdups (map (\<lambda>s. get s (identifier_key self)) (queries sc))) Graph"
  from add_edges_returns [OF c m th keys subset_refl] obtain g where
    "add_edges self sc th 0 (queries sc) ?g0 = Inr g" by blast
  with assms(1) gth have "create_network gth self sc = (None, self\<lparr>graph := Some g\<rparr>)"
    by (simp add: create_network_def Let_def sym)
  then show ?thesis by (rule exI)
qed

section \<open>"mutual" against "single"\<close>

lemma new_edges_mutual_single:
  assumes "new_edges (self\<lparr>link_method := Some ''mutual''\<rparr>) sc th i spec = Inr em"
  shows "\<exists>es. new_edges (self\<lparr>link_method := Some ''single''\<rparr>) sc th i spec = Inr es \<and>
              set em \<subseteq> set es"
proof -
  let ?q = "get spec (identifier_key self)"
  from assms obtain hits cands c where
    hits: "th ?q = Some hits"
    and cands: "ref_candidates (references sc) (identifier_key self) (map fst hits) = Inr cands"
    and c: "cutoff self = Some c"
    by (auto simp: new_edges_def Let_def split: option.splits sum.splits)
  let ?ix = "idx c ?q (max_links self) (map snd hits) cands"
  have m: "mutual_edges th i ?q (map snd hits) cands ?ix = Inr em"
    using assms hits cands c by (simp add: new_edges_def Let_def)
  have s: "new_edges (self\<lparr>link_method := Some ''single''\<rparr>) sc th i spec
             = Inr (map (\<lambda>x. (?q, cands ! x, map snd hits ! x)) ?ix)"
    using hits cands c by (simp add: new_edges_def Let_def)
  from mutual_edges_subset [OF m] s show ?thesis by simp
qed

lemma add_edges_mutual_single:
  assumes "add_edges (self\<lparr>link_method := Some ''mutual''\<rparr>) sc th i qs gm = Inr gm'"
    and "nodes gm \<subseteq> nodes gs"
    and "\<forall>a b. adj gm a b \<noteq> None \<longrightarrow> adj gs a b \<noteq> None"
  shows "\<exists>gs'. add_edges (self\<lparr>link_method := Some ''single''\<rparr>) sc th i qs gs = Inr gs' \<and>
               nodes gm' \<subseteq> nodes gs' \<and>
               (\<forall>a b. adj gm' a b \<noteq> None \<longrightarrow> adj gs' a b \<noteq> None)"
  using assms
proof (induction qs arbitrary: i gm gs)
  case Nil
  then show ?case by simp
next
  case (Cons spec rest)
  from Cons.prems(1) obtain em where
    em: "new_edges (self\<lparr>link_method := Some ''mutual''\<rparr>) sc th i spec = Inr em"
    and rest: "add_edges (self\<lparr>link_method := Some ''mutual''\<rparr>) sc th (Suc i) rest
                 (add_weighted_edges_from em gm) = Inr gm'"
    by (auto split: sum.splits)
  from new_edges_mutual_single [OF em] obtain es where
    es: "new_edges (self\<lparr>link_method := Some ''single''\<rparr>) sc th i spec = Inr es"
    and sub: "set em \<subseteq> set es"
    by blast
  have n: "nodes (add_weighted_edges_from em gm) \<subseteq> nodes (add_weighted_edges_from es gs)"
    unfolding nodes_add_weighted_edges_from using Cons.prems(2) sub by blast
  have "\<forall>a b. adj (add_weighted_edges_from em gm) a b \<noteq> None
           \<longrightarrow> adj (add_weighted_edges_from es gs) a b \<noteq> None"
    unfolding linked_add_weighted_edges_from using Cons.prems(3) sub by blast
  from Cons.IH [OF rest n this] es show ?case by simp
qed

lemma adj_add_weighted_edges_from_cong:
  "adj g a b = adj g' a b \<Longrightarrow>
     adj (add_weighted_edges_from es g) a b = adj (add_weighted_edges_from es g') a b"
proof (induction es arbitrary: g g')
  case Nil
  then show ?case by simp
next
  case (Cons e es)
  obtain u v w where e: "e = (u, v, w)" by (cases e)
  have "adj (add_edge u v w g) a b = adj (add_edge u v w g') a b"
    using Cons.prems by (simp add: adj_add_edge)
  from Cons.IH [OF this] show ?case by (simp add: e)
qed

lemma adj_add_weighted_edges_from_filter:
  "adj (add_weighted_edges_from es g) a b
     = adj (add_weighted_edges_from (filter (touches a b) es) g) a b"
proof (induction es arbitrary: g)
  case Nil
  then show ?case by simp
next
  case (Cons e es)
  obtain u v w where e: "e = (u, v, w)" by (cases e)
  show ?case
  proof (cases "touches a b e")
    case True
    then show ?thesis using Cons.IH [of "add_edge u v w g"] by (simp add: e)
  next
    case False
    then have "adj (add_edge u v w g) a b = adj g a b"
      by (auto simp: adj_add_edge touches_def e)
    from adj_add_weighted_edges_from_cong [OF this]
    have "adj (add_weighted_edges_from es (add_edge u v w g)) a b
            = adj (add_weighted_edges_from es g) a b" .
    with False Cons.IH [of g] show ?thesis by (simp add: e)
  qed
qed

lemma adj_add_weighted_edges_from_touching:
  "es \<noteq> [] \<Longrightarrow> \<forall>e \<in> set es. touches a b e \<Longrightarrow>
     adj (add_weighted_edges_from es g) a b = adj (add_weighted_edges_from es g') a b"
proof (induction es arbitrary: g g')
  case Nil
  then show ?case by simp
next
  case (Cons e es)
  obtain u v w where e: "e = (u, v, w)" by (cases e)
  have t: "touches a b (u, v, w)" using Cons.prems(2) e by simp
  then have "adj (add_edge u v w g) a b = adj (add_edge u v w g') a b"
    by (auto simp: adj_add_edge touches_def)
  from adj_add_weighted_edges_from_cong [OF this] show ?case by (simp add: e)
qed

lemma mutual_edges_filter:
  "mutual_edges th i q sims cands xs = Inr em \<Longrightarrow>
     em = map (\<lambda>x. (q, cands ! x, sims ! x)) (filter (\<lambda>x. in_top_hits th i (cands ! x)) xs)"
  by (induction xs arbitrary: em)
     (auto simp: in_top_hits_def split: option.splits sum.splits if_splits)

text \<open>The proposals of one iteration under both link methods, side by side.\<close>

lemma new_edges_mutual_filter:
  assumes "new_edges (self\<lparr>link_method := Some ''mutual''\<rparr>) sc th i spec = Inr em"
  shows "\<exists>es. new_edges (self\<lparr>link_method := Some ''single''\<rparr>) sc th i spec = Inr es \<and>
           em = filter (\<lambda>e. in_top_hits th i (fst (snd e))) es \<and>
           (\<forall>e \<in> set es. fst e = get spec (identifier_key self) \<and>
              (\<exists>p < length (references sc).
                 numpy_str (get (references sc ! p) (identifier_key self)) = fst (snd e) \<and>
                 in_top_hits th p (get spec (identifier_key self))))"
proof -
  let ?q = "get spec (identifier_key self)"
  from assms obtain hits cands c where
    hits: "th ?q = Some hits"
    and cands: "ref_candidates (references sc) (identifier_key self) (map fst hits) = Inr cands"
    and c: "cutoff self = Some c"
    by (auto simp: new_edges_def Let_def split: option.splits sum.splits)
  let ?ix = "idx c ?q (max_links self) (map snd hits) cands"
  let ?f = "\<lambda>x. (?q, cands ! x, map snd hits ! x)"
  have m: "mutual_edges th i ?q (map snd hits) cands ?ix = Inr em"
    using assms hits cands c by (simp add: new_edges_def Let_def)
  have s: "new_edges (self\<lparr>link_method := Some ''single''\<rparr>) sc th i spec = Inr (map ?f ?ix)"
    using hits cands c by (simp add: new_edges_def Let_def)
  have f: "em = filter (\<lambda>e. in_top_hits th i (fst (snd e))) (map ?f ?ix)"
    using mutual_edges_filter [OF m] by (simp add: filter_map comp_def)
  from ref_candidates_Inr [OF cands]
  have cs: "cands = map (\<lambda>x. numpy_str (get (references sc ! x) (identifier_key self)))
                      (map fst hits)"
    and valid: "\<forall>x \<in> set (map fst hits). x < length (references sc)" by auto
  have "fst e = ?q \<and>
        (\<exists>p < length (references sc).
            numpy_str (get (references sc ! p) (identifier_key self)) = fst (snd e) \<and>
            in_top_hits th p ?q)"
    if "e \<in> set (map ?f ?ix)" for e
  proof -
    from that obtain x where x: "x \<in> set ?ix" and e: "e = ?f x" by auto
    from idx_member [OF x] have px: "x < length cands" by auto
    let ?p = "map fst hits ! x"
    have len: "x < length (map fst hits)" using px cs by simp
    then have mem: "?p \<in> set (map fst hits)" by (rule nth_mem)
    with valid have "?p < length (references sc)" by blast
    moreover have "numpy_str (get (references sc ! ?p) (identifier_key self)) = cands ! x"
      using len by (subst cs) (simp only: nth_map length_map)
    moreover have "in_top_hits th ?p ?q"
      using mem hits by (simp add: in_top_hits_def)
    ultimately show ?thesis using e by auto
  qed
  with s f show ?thesis by blast
qed

lemma weighted_step:
  assumes D: "distinct (map (\<lambda>s. get s (identifier_key self)) (queries sc))"
    and N: "\<forall>s \<in> set (queries sc).
              numpy_str (get s (identifier_key self)) = get s (identifier_key self)"
    and sym: "queries sc = references sc"
    and i: "i < length (queries sc)" and spec: "spec = queries sc ! i"
    and em: "new_edges (self\<lparr>link_method := Some ''mutual''\<rparr>) sc th i spec = Inr em"
    and es: "new_edges (self\<lparr>link_method := Some ''single''\<rparr>) sc th i spec = Inr es"
    and I: "\<forall>a b w. adj gm a b = Some w \<longrightarrow> adj gs a b = Some w \<and>
              reciprocal th (map (\<lambda>s. get s (identifier_key self)) (queries sc)) a b"
  shows "\<forall>a b w. adj (add_weighted_edges_from em gm) a b = Some w \<longrightarrow>
           adj (add_weighted_edges_from es gs) a b = Some w \<and>
           reciprocal th (map (\<lambda>s. get s (identifier_key self)) (queries sc)) a b"
proof (intro allI impI)
  fix a b w
  assume w: "adj (add_weighted_edges_from em gm) a b = Some w"
  define ids where "ids = map (\<lambda>s. get s (identifier_key self)) (queries sc)"
  define q where "q = get spec (identifier_key self)"
  define A where "A = (\<lambda>e::edge. in_top_hits th i (fst (snd e)))"
  have dist: "distinct ids" using D by (simp add: ids_def)
  have I': "\<And>w. adj gm a b = Some w \<Longrightarrow> adj gs a b = Some w \<and> reciprocal th ids a b"
    using I by (simp add: ids_def)
  from new_edges_mutual_filter [OF em] es
  have f: "em = filter A es"
    and pr: "\<forall>e \<in> set es. fst e = q \<and>
              (\<exists>p < length (references sc).
                 numpy_str (get (references sc ! p) (identifier_key self)) = fst (snd e) \<and>
                 in_top_hits th p q)"
    by (auto simp: A_def q_def)
  have il: "i < length ids" and qi: "ids ! i = q"
    using i spec by (simp_all add: ids_def q_def)
  have cand: "\<exists>p < length ids. ids ! p = fst (snd e) \<and> in_top_hits th p q \<and> fst e = q"
    if "e \<in> set es" for e
  proof -
    from pr that obtain p where p: "p < length (references sc)"
      "numpy_str (get (references sc ! p) (identifier_key self)) = fst (snd e)"
      "in_top_hits th p q" "fst e = q"
      by blast
    from p(1) sym have "queries sc ! p \<in> set (queries sc)" by simp
    with N have "numpy_str (get (queries sc ! p) (identifier_key self))
                   = get (queries sc ! p) (identifier_key self)" by blast
    with p sym show ?thesis by (intro exI [of _ p]) (simp add: ids_def)
  qed
  have uniq: "x = y" if "x < length ids" "y < length ids" "ids ! x = ids ! y" for x y
    using that dist by (simp add: nth_eq_iff_index_eq)
  have key1: "A e" if e: "e \<in> set es" and t: "touches a b e" and R: "reciprocal th ids a b" for e
  proof -
    from cand [OF e] obtain p where p: "p < length ids" "ids ! p = fst (snd e)" "fst e = q"
      by blast
    from t consider "fst e = a" "fst (snd e) = b" | "fst e = b" "fst (snd e) = a"
      by (auto simp: touches_def)
    then show ?thesis
    proof cases
      case 1
      with R il p qi have "in_top_hits th i b" unfolding reciprocal_def by metis
      with 1 show ?thesis by (simp add: A_def)
    next
      case 2
      with R il p qi have "in_top_hits th i a" unfolding reciprocal_def by metis
      with 2 show ?thesis by (simp add: A_def)
    qed
  qed
  have key2: "reciprocal th ids a b" if e: "e \<in> set es" and t: "touches a b e" and acc: "A e" for e
  proof -
    from cand [OF e] obtain p where
      p: "p < length ids" "ids ! p = fst (snd e)" "in_top_hits th p q" "fst e = q"
      by blast
    from t consider "fst e = a" "fst (snd e) = b" | "fst e = b" "fst (snd e) = a"
      by (auto simp: touches_def)
    then show ?thesis
    proof cases
      case 1
      have "in_top_hits th i' b \<and> in_top_hits th j' a"
        if "i' < length ids" "j' < length ids" "ids ! i' = a" "ids ! j' = b" for i' j'
      proof -
        have "i' = i" using that(1,3) il qi p(4) 1(1) by (intro uniq) simp_all
        moreover have "j' = p" using that(2,4) p(1,2) 1(2) by (intro uniq) simp_all
        ultimately show ?thesis using acc p(3,4) 1 by (simp add: A_def)
      qed
      then show ?thesis unfolding reciprocal_def by blast
    next
      case 2
      have "in_top_hits th i' b \<and> in_top_hits th j' a"
        if "i' < length ids" "j' < length ids" "ids ! i' = a" "ids ! j' = b" for i' j'
      proof -
        have "j' = i" using that(2,4) il qi p(4) 2(1) by (intro uniq) simp_all
        moreover have "i' = p" using that(1,3) p(1,2) 2(2) by (intro uniq) simp_all
        ultimately show ?thesis using acc p(3,4) 2 by (simp add: A_def)
      qed
      then show ?thesis unfolding reciprocal_def by blast
    qed
  qed
  have "adj (add_weighted_edges_from es gs) a b = Some w \<and> reciprocal th ids a b"
  proof (cases "filter (touches a b) em = []")
    case True
    have "adj (add_weighted_edges_from em gm) a b = adj gm a b"
      using adj_add_weighted_edges_from_filter [of em gm a b] True by simp
    with w have "adj gm a b = Some w" by simp
    from I' [OF this] have gs: "adj gs a b = Some w" and R: "reciprocal th ids a b" by simp_all
    have "filter (touches a b) es = []"
    proof (rule ccontr)
      assume "filter (touches a b) es \<noteq> []"
      then obtain e where e: "e \<in> set es" "touches a b e"
        by (auto simp: filter_empty_conv)
      from key1 [OF e R] e have "e \<in> set (filter (touches a b) em)" by (simp add: f)
      with True show False by simp
    qed
    then have "adj (add_weighted_edges_from es gs) a b = adj gs a b"
      using adj_add_weighted_edges_from_filter [of es gs a b] by simp
    with gs R show ?thesis by simp
  next
    case False
    then obtain e where "e \<in> set em" "touches a b e"
      by (auto simp: filter_empty_conv)
    then have e: "e \<in> set es" "touches a b e" "A e" by (simp_all add: f)
    from key2 [OF e] have R: "reciprocal th ids a b" .
    have same: "filter (touches a b) em = filter (touches a b) es"
      unfolding f filter_filter using key1 R by (intro filter_cong) auto
    have "adj (add_weighted_edges_from em gm) a b
            = adj (add_weighted_edges_from (filter (touches a b) es) gm) a b"
      using adj_add_weighted_edges_from_filter [of em gm a b] same by simp
    also have "\<dots> = adj (add_weighted_edges_from (filter (touches a b) es) gs) a b"
      using False same by (intro adj_add_weighted_edges_from_touching) auto
    also have "\<dots> = adj (add_weighted_edges_from es gs) a b"
      by (rule adj_add_weighted_edges_from_filter [symmetric])
    finally show ?thesis using w R by simp
  qed
  then show "adj (add_weighted_edges_from es gs) a b = Some w \<and>
             reciprocal th (map (\<lambda>s. get s (identifier_key self)) (queries sc)) a b"
    by (simp add: ids_def)
qed

lemma add_edges_mutual_single_weighted:
  assumes D: "distinct (map (\<lambda>s. get s (identifier_key self)) (queries sc))"
    and N: "\<forall>s \<in> set (queries sc).
              numpy_str (get s (identifier_key self)) = get s (identifier_key self)"
    and sym: "queries sc = references sc"
    and qs: "drop i (queries sc) = qs"
    and m: "add_edges (self\<lparr>link_method := Some ''mutual''\<rparr>) sc th i qs gm = Inr gm'"
    and s: "add_edges (self\<lparr>link_method := Some ''single''\<rparr>) sc th i qs gs = Inr gs'"
    and I: "\<forall>a b w. adj gm a b = Some w \<longrightarrow> adj gs a b = Some w \<and>
              reciprocal th (map (\<lambda>s. get s (identifier_key self)) (queries sc)) a b"
  shows "\<forall>a b w. adj gm' a b = Some w \<longrightarrow> adj gs' a b = Some w"
  using qs m s I
proof (induction qs arbitrary: i gm gs)
  case Nil
  then show ?case by simp
next
  case (Cons spec rest)
  from Cons.prems(1) have i: "i < length (queries sc)"
    by (metis drop_all list.distinct(1) not_le)
  then have "drop i (queries sc) = queries sc ! i # drop (Suc i) (queries sc)"
    by (simp add: Cons_nth_drop_Suc)
  with Cons.prems(1) have spec: "spec = queries sc ! i" and rest: "drop (Suc i) (queries sc) = rest"
    by simp_all
  from Cons.prems(2) obtain em where
    em: "new_edges (self\<lparr>link_method := Some ''mutual''\<rparr>) sc th i spec = Inr em"
    and m': "add_edges (self\<lparr>link_method := Some ''mutual''\<rparr>) sc th (Suc i) rest
                 (add_weighted_edges_from em gm) = Inr gm'"
    by (auto split: sum.splits)
  from Cons.prems(3) obtain es where
    es: "new_edges (self\<lparr>link_method := Some ''single''\<rparr>) sc th i spec = Inr es"
    and s': "add_edges (self\<lparr>link_method := Some ''single''\<rparr>) sc th (Suc i) rest
                 (add_weighted_edges_from es gs) = Inr gs'"
    by (auto split: sum.splits)
  from weighted_step [OF D N sym i spec em es Cons.prems(4)]
  show ?case by (rule Cons.IH [OF rest m' s'])
qed


section \<open>Configuration\<close>

text \<open>
  C1. The claim: every attribute that \<open>create_network\<close> reads is assigned by \<open>__init__\<close>.
  The code reads \<open>self.cutoff\<close> and \<open>self.link_method\<close>, which \<open>__init__\<close> never assigns
  (it stores the threshold as \<open>self.score_cutoff\<close>). On the default instance and the three
  example items, \<open>create_network\<close> raises AttributeError for \<open>cutoff\<close> in its first
  iteration and leaves the instance as it was.
\<close>

theorem default_instance_attribute_error:
  "init ''spectrumid'' 20 10 (7/10) = Inr default_network \<and>
   create_network example_top_hits default_network example_scores
     = (Some (AttributeError ''cutoff''), default_network)"
  by (simp add: init_def example_defs run_defs)

text \<open>
  C2. The claim: every edge of the built graph has a weight of at least \<open>score_cutoff\<close>.
  The code compares against \<open>self.cutoff\<close>, an attribute different from
  \<open>self.score_cutoff\<close>. On the default instance (\<open>score_cutoff\<close> 0.7) with \<open>cutoff\<close>
  set to 0.4 and \<open>link_method\<close> to "single" afterwards, the build succeeds and stores the
  edge A-C of weight 0.5, below \<open>score_cutoff\<close>.
\<close>

theorem edge_below_score_cutoff:
  "(let r = create_network example_top_hits
              (default_network\<lparr>cutoff := Some (4/10), link_method := Some ''single''\<rparr>)
              example_scores
    in fst r = None \<and> stored_weight (snd r) ''A'' ''C'' = Some (5/10) \<and>
       score_cutoff (snd r) = 7/10 \<and> (5/10 :: real) < 7/10)"
  by (simp add: example_defs run_defs)

section \<open>The built graph\<close>

text \<open>
  C3. Node completeness: when \<open>create_network\<close> returns, the stored graph has the identifier
  of every query as a node, whether or not the item got an edge; items with the same
  identifier share one node, so that, when no identifier ends in a NUL character, the
  graph has as many nodes as there are different identifiers.
\<close>

theorem node_completeness:
  assumes "create_network gth self sc = (None, self')"
  shows "\<exists>g. graph self' = Some g \<and>
           (\<forall>s \<in> set (queries sc). get s (identifier_key self) \<in> nodes g) \<and>
           ((\<forall>s \<in> set (queries sc).
                numpy_str (get s (identifier_key self)) = get s (identifier_key self)) \<longrightarrow>
            card (nodes g)
              = length (remdups (map (\<lambda>s. get s (identifier_key self)) (queries sc))))"
  using assms
proof (rule built_graph)
  fix g
  assume g: "graph self' = Some g"
    and n: "(\<lambda>s. get s (identifier_key self)) ` set (queries sc) \<subseteq> nodes g"
  have 1: "\<forall>s \<in> set (queries sc). get s (identifier_key self) \<in> nodes g"
    using n by blast
  have 2: "card (nodes g)
             = length (remdups (map (\<lambda>s. get s (identifier_key self)) (queries sc)))"
    if "\<forall>s \<in> set (queries sc).
          numpy_str (get s (identifier_key self)) = get s (identifier_key self)"
  proof -
    have "nodes g = (\<lambda>s. get s (identifier_key self)) ` set (queries sc)"
      using assms g that by (rule built_graph_nodes)
    then show ?thesis by (simp add: length_remdups_card_conv)
  qed
  from g 1 2 show ?thesis by simp
qed

text \<open>
  The example with cutoff 0.7: the build returns, A, B and C are the three nodes, and C,
  which has no score of 0.7 or more, has no neighbour.
\<close>

theorem node_completeness_witness:
  "create_network example_top_hits single_network example_scores
     = (None, snd (create_network example_top_hits single_network example_scores)) \<and>
   numpy_str (get spec_A (identifier_key single_network)) = get spec_A (identifier_key single_network) \<and>
   numpy_str (get spec_B (identifier_key single_network)) = get spec_B (identifier_key single_network) \<and>
   numpy_str (get spec_C (identifier_key single_network)) = get spec_C (identifier_key single_network) \<and>
   (\<exists>g. graph (snd (create_network example_top_hits single_network example_scores)) = Some g \<and>
        ''A'' \<in> nodes g \<and> ''B'' \<in> nodes g \<and> ''C'' \<in> nodes g \<and> card (nodes g) = 3 \<and>
        adj g ''C'' ''A'' = None \<and> adj g ''C'' ''B'' = None)"
proof -
  let ?r = "snd (create_network example_top_hits single_network example_scores)"
  have h: "create_network example_top_hits single_network example_scores = (None, ?r)"
    by (simp add: example_defs run_defs)
  have nul: "numpy_str (get spec_A (identifier_key single_network))
               = get spec_A (identifier_key single_network)"
    "numpy_str (get spec_B (identifier_key single_network))
               = get spec_B (identifier_key single_network)"
    "numpy_str (get spec_C (identifier_key single_network))
               = get spec_C (identifier_key single_network)"
    by (simp_all add: example_defs get_def numpy_str_def)
  have guard: "\<forall>s \<in> set (queries example_scores).
      numpy_str (get s (identifier_key single_network)) = get s (identifier_key single_network)"
    using nul by (simp add: example_scores_def)
  have iso: "stored_weight ?r ''C'' ''A'' = None" "stored_weight ?r ''C'' ''B'' = None"
    by (simp_all add: example_defs run_defs)
  from node_completeness [OF h] obtain g where
    g: "graph ?r = Some g"
    and n: "\<forall>s \<in> set (queries example_scores). get s (identifier_key single_network) \<in> nodes g"
    and c: "(\<forall>s \<in> set (queries example_scores).
                numpy_str (get s (identifier_key single_network))
                  = get s (identifier_key single_network)) \<longrightarrow>
            card (nodes g) = length (remdups (map (\<lambda>s. get s (identifier_key single_network))
               (queries example_scores)))"
    by (elim exE conjE)
  from n have m: "''A'' \<in> nodes g" "''B'' \<in> nodes g" "''C'' \<in> nodes g"
    by (simp_all add: example_defs get_def)
  from c [THEN mp, OF guard] have k: "card (nodes g) = 3"
    by (simp add: example_defs get_def)
  have e: "adj g ''C'' ''A'' = None" "adj g ''C'' ''B'' = None"
    using iso by (simp_all add: stored_weight_def g)
  have ex: "\<exists>g. graph ?r = Some g \<and>
        ''A'' \<in> nodes g \<and> ''B'' \<in> nodes g \<and> ''C'' \<in> nodes g \<and> card (nodes g) = 3 \<and>
        adj g ''C'' ''A'' = None \<and> adj g ''C'' ''B'' = None"
    using g m k e by (intro exI [of _ g] conjI)
  show ?thesis
    by (rule conjI [OF h conjI [OF nul(1) conjI [OF nul(2) conjI [OF nul(3) ex]]]])
qed

text \<open>
  C4. No self-loops: when \<open>create_network\<close> returns, no edge of the stored graph joins a node
  to itself; and in every iteration each proposed edge starts at the query's identifier and
  ends at a different one.
\<close>

theorem no_self_loops:
  "(create_network gth self sc = (None, self') \<longrightarrow>
      (\<exists>g. graph self' = Some g \<and> (\<forall>a b w. adj g a b = Some w \<longrightarrow> a \<noteq> b))) \<and>
   (new_edges self sc th i spec = Inr es \<longrightarrow>
      (\<forall>u v w. (u, v, w) \<in> set es \<longrightarrow> u = get spec (identifier_key self) \<and> v \<noteq> u))"
proof (intro conjI impI allI)
  assume "create_network gth self sc = (None, self')"
  then show "\<exists>g. graph self' = Some g \<and> (\<forall>a b w. adj g a b = Some w \<longrightarrow> a \<noteq> b)"
  proof (rule built_graph)
    fix g
    assume g: "graph self' = Some g"
      and e: "\<And>a b w. adj g a b = Some w \<Longrightarrow>
           a \<in> nodes g \<and> b \<in> nodes g \<and> a \<noteq> b \<and> (\<exists>c. cutoff self = Some c \<and> c \<le> w)"
    have "\<forall>a b w. adj g a b = Some w \<longrightarrow> a \<noteq> b"
      using e by simp
    with g show ?thesis by simp
  qed
next
  fix u v w
  assume "new_edges self sc th i spec = Inr es" and "(u, v, w) \<in> set es"
  from new_edges_proposal [OF this]
  have "u = get spec (identifier_key self) \<and> v \<noteq> u" by (elim conjE) (rule conjI)
  then show "u = get spec (identifier_key self)" and "v \<noteq> u"
    by (rule conjunct1, rule conjunct2)
qed

theorem no_self_loops_witness:
  "create_network example_top_hits capped_network example_scores
     = (None, snd (create_network example_top_hits capped_network example_scores)) \<and>
   new_edges capped_network example_scores (example_hits 2) 2 spec_C = Inr [(''C'', ''A'', 5/10)] \<and>
   (\<exists>g. graph (snd (create_network example_top_hits capped_network example_scores)) = Some g \<and>
        adj g ''A'' ''A'' = None \<and> adj g ''B'' ''B'' = None \<and> adj g ''C'' ''C'' = None) \<and>
   get spec_C (identifier_key capped_network) = ''C'' \<and> ''A'' \<noteq> ''C''"
proof -
  let ?r = "snd (create_network example_top_hits capped_network example_scores)"
  have h: "create_network example_top_hits capped_network example_scores = (None, ?r)"
    by (simp add: example_defs run_defs)
  have e: "new_edges capped_network example_scores (example_hits 2) 2 spec_C
             = Inr [(''C'', ''A'', 5/10)]"
    by (simp add: example_defs run_defs)
  note t = no_self_loops [of example_top_hits capped_network example_scores ?r
      "example_hits 2" 2 spec_C "[(''C'', ''A'', 5/10)]"]
  have "\<exists>g. graph ?r = Some g \<and> (\<forall>a b w. adj g a b = Some w \<longrightarrow> a \<noteq> b)"
    using t [THEN conjunct1] h by (rule mp)
  then obtain g where g: "graph ?r = Some g"
    and loops: "\<forall>a b w. adj g a b = Some w \<longrightarrow> a \<noteq> b"
    by (elim exE conjE)
  have none: "adj g a a = None" for a
    using loops [rule_format, of a a] by (cases "adj g a a") simp_all
  have ex: "\<exists>g. graph ?r = Some g \<and>
        adj g ''A'' ''A'' = None \<and> adj g ''B'' ''B'' = None \<and> adj g ''C'' ''C'' = None"
    using g none by (intro exI [of _ g] conjI)
  have pa: "\<forall>u v w. (u, v, w) \<in> set [(''C'', ''A'', 5/10 :: real)] \<longrightarrow>
                 u = get spec_C (identifier_key capped_network) \<and> v \<noteq> u"
    using t [THEN conjunct2] e by (rule mp)
  have mem: "(''C'', ''A'', 5/10 :: real) \<in> set [(''C'', ''A'', 5/10)]" by simp
  note pr = pa [rule_format, OF mem]
  have q: "get spec_C (identifier_key capped_network) = ''C''"
    by (rule pr [THEN conjunct1, symmetric])
  have ne: "''A'' \<noteq> ''C''"
    by (rule pr [THEN conjunct2])
  show ?thesis
    by (rule conjI [OF h conjI [OF e conjI [OF ex conjI [OF q ne]]]])
qed


text \<open>
  C5, as the claim states it, with edges as triples (A, B, w): every edge of the "mutual"
  graph is an edge of the "single" graph. With two items of the same identifier A this
  fails: the first A and B rank each other first (0.9), the second A ranks B first (0.4)
  and is not ranked by B. Under "mutual" the last edge written for the pair is the one
  that B proposes, of weight 0.9; under "single" it is the one that the second A
  proposes, of weight 0.4.
\<close>

theorem duplicate_identifier_weights_differ:
  "fst (create_network duplicate_top_hits (top1_network\<lparr>link_method := Some ''mutual''\<rparr>)
          duplicate_scores) = None \<and>
   fst (create_network duplicate_top_hits (top1_network\<lparr>link_method := Some ''single''\<rparr>)
          duplicate_scores) = None \<and>
   stored_weight
     (snd (create_network duplicate_top_hits (top1_network\<lparr>link_method := Some ''mutual''\<rparr>)
             duplicate_scores)) ''A'' ''B'' = Some (9/10) \<and>
   stored_weight
     (snd (create_network duplicate_top_hits (top1_network\<lparr>link_method := Some ''single''\<rparr>)
             duplicate_scores)) ''A'' ''B'' = Some (4/10)"
  by (simp add: example_defs run_defs)

text \<open>
  C5, amended: for the same instance, scores and collaborator, when the build with
  \<open>link_method = "mutual"\<close> returns, so does the build with "single"; every node of the
  "mutual" graph is a node of the "single" graph, and every pair of nodes linked in the
  "mutual" graph is linked in the "single" graph. When no identifier ends in a NUL
  character the two graphs have the same nodes; when, moreover, queries and references
  are the same sequence and the identifiers of the items are distinct, every edge of the
  "mutual" graph is in the "single" graph with the same weight.
\<close>

theorem single_link_superset:
  assumes "create_network gth (self\<lparr>link_method := Some ''mutual''\<rparr>) sc = (None, m')"
  shows "\<exists>s' gm gs.
           create_network gth (self\<lparr>link_method := Some ''single''\<rparr>) sc = (None, s') \<and>
           graph m' = Some gm \<and> graph s' = Some gs \<and> nodes gm \<subseteq> nodes gs \<and>
           (\<forall>a b. adj gm a b \<noteq> None \<longrightarrow> adj gs a b \<noteq> None) \<and>
           ((\<forall>s \<in> set (queries sc).
                numpy_str (get s (identifier_key self)) = get s (identifier_key self)) \<longrightarrow>
            nodes gm = nodes gs \<and>
            (queries sc = references sc \<and>
             distinct (map (\<lambda>s. get s (identifier_key self)) (queries sc)) \<longrightarrow>
               (\<forall>a b w. adj gm a b = Some w \<longrightarrow> adj gs a b = Some w)))"
proof -
  let ?g0 = "add_nodes_from (remdups (map (\<lambda>s. get s (identifier_key self)) (queries sc))) Graph"
  from create_network_success [OF assms] obtain th gm where
    pre: "max_links self \<le> top_n self"
      "numpy_all_equal (queries sc) (references sc) = Inr True"
    and th: "gth sc (top_n self) = Inr th"
    and run: "add_edges (self\<lparr>link_method := Some ''mutual''\<rparr>) sc th 0 (queries sc) ?g0 = Inr gm"
    and m': "m' = self\<lparr>link_method := Some ''mutual'', graph := Some gm\<rparr>"
    by auto
  have "nodes ?g0 \<subseteq> nodes ?g0" "\<forall>a b. adj ?g0 a b \<noteq> None \<longrightarrow> adj ?g0 a b \<noteq> None"
    by simp_all
  from add_edges_mutual_single [OF run this] obtain gs where
    gs: "add_edges (self\<lparr>link_method := Some ''single''\<rparr>) sc th 0 (queries sc) ?g0 = Inr gs"
    and nsub: "nodes gm \<subseteq> nodes gs"
    and sub: "\<forall>a b. adj gm a b \<noteq> None \<longrightarrow> adj gs a b \<noteq> None"
    by blast
  let ?s' = "self\<lparr>link_method := Some ''single'', graph := Some gs\<rparr>"
  have s: "create_network gth (self\<lparr>link_method := Some ''single''\<rparr>) sc = (None, ?s')"
    using pre th gs by (simp add: create_network_def Let_def)
  have gm: "graph m' = Some gm" and gs': "graph ?s' = Some gs" by (simp_all add: m')
  have guarded: "nodes gm = nodes gs \<and>
          (queries sc = references sc \<and>
           distinct (map (\<lambda>s. get s (identifier_key self)) (queries sc)) \<longrightarrow>
             (\<forall>a b w. adj gm a b = Some w \<longrightarrow> adj gs a b = Some w))"
    if N: "\<forall>s \<in> set (queries sc).
             numpy_str (get s (identifier_key self)) = get s (identifier_key self)"
  proof -
    have "nodes gm = (\<lambda>s. get s (identifier_key self)) ` set (queries sc)"
      using built_graph_nodes [OF assms gm] N by simp
    moreover have "nodes gs = (\<lambda>s. get s (identifier_key self)) ` set (queries sc)"
      using built_graph_nodes [OF s gs'] N by simp
    ultimately have n: "nodes gm = nodes gs" by simp
    have "\<forall>a b w. adj gm a b = Some w \<longrightarrow> adj gs a b = Some w"
      if sym: "queries sc = references sc"
        and D: "distinct (map (\<lambda>s. get s (identifier_key self)) (queries sc))"
    proof -
      have 0: "drop 0 (queries sc) = queries sc" by simp
      have I: "\<forall>a b w. adj ?g0 a b = Some w \<longrightarrow> adj ?g0 a b = Some w \<and>
                 reciprocal th (map (\<lambda>s. get s (identifier_key self)) (queries sc)) a b"
        by (simp add: add_nodes_from_def Graph_def)
      show ?thesis
        by (rule add_edges_mutual_single_weighted [OF D N sym 0 run gs I])
    qed
    with n show ?thesis by blast
  qed
  from s gm gs' nsub sub guarded show ?thesis by blast
qed

text \<open>
  The example with \<open>top_n = 1\<close>, \<open>max_links = 1\<close> and cutoff 0.3: A and B rank each other
  first, C ranks A first but A does not rank C. "mutual" keeps A-B only, "single" has
  C-A as well.
\<close>

theorem single_link_superset_witness:
  "create_network example_top_hits (top1_network\<lparr>link_method := Some ''mutual''\<rparr>) example_scores
     = (None, snd (create_network example_top_hits
                     (top1_network\<lparr>link_method := Some ''mutual''\<rparr>) example_scores)) \<and>
   numpy_str (get spec_A (identifier_key top1_network)) = get spec_A (identifier_key top1_network) \<and>
   numpy_str (get spec_B (identifier_key top1_network)) = get spec_B (identifier_key top1_network) \<and>
   numpy_str (get spec_C (identifier_key top1_network)) = get spec_C (identifier_key top1_network) \<and>
   queries example_scores = references example_scores \<and>
   distinct (map (\<lambda>s. get s (identifier_key top1_network)) (queries example_scores)) \<and>
   (\<exists>s' gm gs.
      create_network example_top_hits (top1_network\<lparr>link_method := Some ''single''\<rparr>)
        example_scores = (None, s') \<and>
      graph (snd (create_network example_top_hits
                    (top1_network\<lparr>link_method := Some ''mutual''\<rparr>) example_scores)) = Some gm \<and>
      graph s' = Some gs \<and> nodes gm = nodes gs \<and>
      adj gm ''A'' ''B'' = Some (9/10) \<and> adj gs ''A'' ''B'' = Some (9/10) \<and>
      adj gm ''C'' ''A'' = None \<and> adj gs ''C'' ''A'' = Some (5/10))"
proof -
  let ?m = "create_network example_top_hits (top1_network\<lparr>link_method := Some ''mutual''\<rparr>)
              example_scores"
  let ?s = "create_network example_top_hits (top1_network\<lparr>link_method := Some ''single''\<rparr>)
              example_scores"
  have h: "?m = (None, snd ?m)"
    by (simp add: example_defs run_defs)
  have nul: "numpy_str (get spec_A (identifier_key top1_network))
               = get spec_A (identifier_key top1_network)"
    "numpy_str (get spec_B (identifier_key top1_network))
               = get spec_B (identifier_key top1_network)"
    "numpy_str (get spec_C (identifier_key top1_network))
               = get spec_C (identifier_key top1_network)"
    by (simp_all add: example_defs get_def numpy_str_def)
  have guard: "\<forall>s \<in> set (queries example_scores).
      numpy_str (get s (identifier_key top1_network)) = get s (identifier_key top1_network)"
    using nul by (simp add: example_scores_def)
  have sym: "queries example_scores = references example_scores"
    by (simp add: example_scores_def)
  have d: "distinct (map (\<lambda>s. get s (identifier_key top1_network)) (queries example_scores))"
    by (simp add: example_defs get_def)
  have wm: "stored_weight (snd ?m) ''A'' ''B'' = Some (9/10)"
    "stored_weight (snd ?m) ''C'' ''A'' = None"
    by (simp_all add: example_defs run_defs)
  have ws: "stored_weight (snd ?s) ''C'' ''A'' = Some (5/10)"
    by (simp add: example_defs run_defs)
  from single_link_superset [OF h] obtain s' gm gs where
    r1: "?s = (None, s')" and r2: "graph (snd ?m) = Some gm" and r3: "graph s' = Some gs"
    and r4: "nodes gm \<subseteq> nodes gs"
    and r5: "\<forall>a b. adj gm a b \<noteq> None \<longrightarrow> adj gs a b \<noteq> None"
    and r6: "(\<forall>s \<in> set (queries example_scores).
                numpy_str (get s (identifier_key top1_network))
                  = get s (identifier_key top1_network)) \<longrightarrow>
            nodes gm = nodes gs \<and>
            (queries example_scores = references example_scores \<and>
             distinct (map (\<lambda>s. get s (identifier_key top1_network)) (queries example_scores)) \<longrightarrow>
               (\<forall>a b w. adj gm a b = Some w \<longrightarrow> adj gs a b = Some w))"
    by (elim exE conjE)
  note r7 = r6 [THEN mp, OF guard]
  note n = r7 [THEN conjunct1]
  note same = r7 [THEN conjunct2, THEN mp, OF conjI [OF sym d], rule_format]
  have m1: "adj gm ''A'' ''B'' = Some (9/10)"
    using wm(1) by (simp add: stored_weight_def r2)
  have m2: "adj gm ''C'' ''A'' = None"
    using wm(2) by (simp add: stored_weight_def r2)
  have s1: "adj gs ''A'' ''B'' = Some (9/10)"
    by (rule same [OF m1])
  have "snd ?s = s'" by (simp add: r1)
  then have s2: "adj gs ''C'' ''A'' = Some (5/10)"
    using ws by (simp add: stored_weight_def r3)
  have ex: "\<exists>s' gm gs.
      ?s = (None, s') \<and> graph (snd ?m) = Some gm \<and> graph s' = Some gs \<and> nodes gm = nodes gs \<and>
      adj gm ''A'' ''B'' = Some (9/10) \<and> adj gs ''A'' ''B'' = Some (9/10) \<and>
      adj gm ''C'' ''A'' = None \<and> adj gs ''C'' ''A'' = Some (5/10)"
    using r1 r2 r3 n m1 s1 m2 s2
    by (intro exI [of _ s'] exI [of _ gm] exI [of _ gs] conjI)
  show ?thesis
    by (rule conjI [OF h conjI [OF nul(1) conjI [OF nul(2) conjI [OF nul(3)
          conjI [OF sym conjI [OF d ex]]]]]])
qed

text \<open>
  C6, as the claim states it: the number of edges one query proposes never exceeds
  \<open>max_links\<close>. No check keeps \<open>max_links\<close> from being negative, and \<open>[:self.max_links]\<close>
  then drops candidates from the end: with \<open>max_links = -1\<close> (and \<open>top_n = 2\<close>, so the
  assertion holds) the build returns, and A, with two candidates above the cutoff, proposes
  one edge, more than \<open>max_links\<close>.
\<close>

theorem negative_max_links_exceeded:
  "fst (create_network example_top_hits negative_network example_scores) = None \<and>
   new_edges negative_network example_scores (example_hits 2) 0 spec_A
     = Inr [(''A'', ''B'', 9/10)] \<and>
   max_links negative_network < int (length [(''A'', ''B'', 9/10 :: real)])"
  by (simp add: example_defs run_defs)

text \<open>
  C6, amended: when \<open>max_links\<close> is not negative, the number of edges that one query
  proposes in its iteration, under either link method, is at most \<open>max_links\<close>.
\<close>

theorem outgoing_proposals_capped:
  assumes "new_edges self sc th i spec = Inr es" and "0 \<le> max_links self"
  shows "int (length es) \<le> max_links self"
  using assms by (rule new_edges_length)

text \<open>
  The example with \<open>max_links = 1\<close> and cutoff 0.3: A proposes the one edge to B, and
  ends with the two neighbours B and C, the second through the edge that C proposes.
\<close>

theorem outgoing_proposals_capped_witness:
  "new_edges capped_network example_scores (example_hits 2) 0 spec_A
     = Inr [(''A'', ''B'', 9/10)] \<and>
   0 \<le> max_links capped_network \<and>
   int (length [(''A'', ''B'', 9/10 :: real)]) \<le> max_links capped_network \<and>
   max_links capped_network = 1 \<and>
   stored_weight (snd (create_network example_top_hits capped_network example_scores)) ''A'' ''B''
     = Some (9/10) \<and>
   stored_weight (snd (create_network example_top_hits capped_network example_scores)) ''A'' ''C''
     = Some (5/10)"
proof -
  have h: "new_edges capped_network example_scores (example_hits 2) 0 spec_A
             = Inr [(''A'', ''B'', 9/10)]"
    by (simp add: example_defs run_defs)
  have p: "0 \<le> max_links capped_network" "max_links capped_network = 1"
    by (simp_all add: example_defs)
  have d: "stored_weight (snd (create_network example_top_hits capped_network example_scores))
             ''A'' ''B'' = Some (9/10)"
    "stored_weight (snd (create_network example_top_hits capped_network example_scores))
             ''A'' ''C'' = Some (5/10)"
    by (simp_all add: example_defs run_defs)
  from outgoing_proposals_capped [OF h p(1)] h p d show ?thesis by simp
qed

section \<open>Rejected configurations and failures\<close>

text \<open>
  C7, as the claim states it: constructing with \<open>top_n = 5\<close> and \<open>max_links = 10\<close> raises.
  It does not: \<open>__init__\<close> returns the instance.
\<close>

theorem init_accepts_top_n_below_max_links:
  "init ''spectrumid'' 5 10 (7/10) =
     Inr \<lparr>identifier_key = ''spectrumid'', top_n = 5, max_links = 10, score_cutoff = 7/10,
          graph = None, cutoff = None, link_method = None\<rparr>"
  by (simp add: init_def)

text \<open>
  C7, amended: with \<open>top_n < max_links\<close> the constructor returns an instance, and
  \<open>create_network\<close> on that instance fails at its first statement with the assertion error
  "top_n must be >= max_links", whatever the scores object and the collaborator are (so
  before any computation on the matrix), and leaves the instance unchanged.
\<close>

theorem top_n_below_max_links_rejected_by_create_network:
  "tn < ml \<Longrightarrow>
     \<exists>self. init ident tn ml c = Inr self \<and>
       create_network gth self sc
         = (Some (AssertionError ''top_n must be >= max_links''), self)"
  by (simp add: init_def create_network_def)

theorem top_n_below_max_links_rejected_witness:
  "(5::int) < 10 \<and>
   (\<exists>self. init ''spectrumid'' 5 10 (7/10) = Inr self \<and>
      create_network example_top_hits self example_scores
        = (Some (AssertionError ''top_n must be >= max_links''), self))"
proof -
  have h: "(5::int) < 10" by simp
  show ?thesis
    using h top_n_below_max_links_rejected_by_create_network
              [OF h, of "''spectrumid''" "7/10" example_top_hits example_scores]
    by simp
qed




text \<open>
  C9, as the claim states it: any \<open>link_method\<close> other than "single" and "mutual" makes
  \<open>create_network\<close> fail. With no items the loop body, which holds the test, never runs:
  the build succeeds and stores the empty graph.
\<close>

theorem unsupported_link_method_accepted_on_empty_scores:
  "create_network empty_top_hits
     (default_network\<lparr>cutoff := Some (7/10), link_method := Some ''complete''\<rparr>) empty_scores
   = (None, default_network\<lparr>cutoff := Some (7/10), link_method := Some ''complete'',
                             graph := Some Graph\<rparr>)"
  by (simp add: example_defs run_defs)

text \<open>
  C9, amended: when \<open>link_method\<close> is set to a value other than "single" and "mutual", the
  preconditions hold, the collaborator returns and there is at least one item, then
  \<open>create_network\<close> fails in the first iteration of its loop, before
  \<open>add_weighted_edges_from\<close> was ever called, and the instance is unchanged; when that
  iteration reaches the test (\<open>cutoff\<close> is set and the first item's candidates are positions
  of references) the error is the ValueError "Link method not kown".
\<close>

theorem unsupported_link_method_rejected:
  assumes lm: "link_method self = Some m" "m \<noteq> ''single''" "m \<noteq> ''mutual''"
    and pre: "max_links self \<le> top_n self" "queries sc = references sc"
    and q: "queries sc = spec # rest" and th: "gth sc (top_n self) = Inr th"
  shows "(\<exists>e. new_edges self sc th 0 spec = Inl e \<and> create_network gth self sc = (Some e, self)) \<and>
    (cutoff self \<noteq> None \<and> (\<exists>hits. th (get spec (identifier_key self)) = Some hits \<and>
        (\<forall>x \<in> set hits. fst x < length (references sc)))
     \<longrightarrow> new_edges self sc th 0 spec = Inl (ValueError ''Link method not kown'') \<and>
         create_network gth self sc = (Some (ValueError ''Link method not kown''), self))"
proof -
  obtain e where e: "new_edges self sc th 0 spec = Inl e"
    using new_edges_unsupported [OF lm] by blast
  have qr: "references sc = spec # rest" using pre(2) q by simp
  have run: "create_network gth self sc = (Some e, self)"
    using pre(1) th e by (simp add: create_network_def Let_def q qr numpy_all_equal_same)
  have "e = ValueError ''Link method not kown''"
    if c: "cutoff self \<noteq> None"
      and h: "th (get spec (identifier_key self)) = Some hits"
             "\<forall>x \<in> set hits. fst x < length (references sc)" for hits
  proof -
    have "ref_candidates (references sc) (identifier_key self) (map fst hits)
            = Inr (map (\<lambda>x. numpy_str (get (references sc ! x) (identifier_key self)))
                     (map fst hits))"
      using h(2) by (intro ref_candidates_valid) auto
    then show ?thesis
      using e c h(1) lm by (auto simp: new_edges_def Let_def)
  qed
  with e run show ?thesis by auto
qed

theorem unsupported_link_method_rejected_witness:
  "create_network example_top_hits
     (default_network\<lparr>cutoff := Some (7/10), link_method := Some ''complete''\<rparr>) example_scores
   = (Some (ValueError ''Link method not kown''),
      default_network\<lparr>cutoff := Some (7/10), link_method := Some ''complete''\<rparr>)"
proof -
  let ?self = "default_network\<lparr>cutoff := Some (7/10), link_method := Some ''complete''\<rparr>"
  have 1: "link_method ?self = Some ''complete''" "''complete'' \<noteq> ''single''"
    "''complete'' \<noteq> ''mutual''"
    "max_links ?self \<le> top_n ?self" "queries example_scores = references example_scores"
    "queries example_scores = spec_A # [spec_B, spec_C]"
    "example_top_hits example_scores (top_n ?self) = Inr (example_hits 20)"
    by (simp_all add: default_network_def example_scores_def example_top_hits_def)
  have 2: "cutoff ?self \<noteq> None \<and>
      (\<exists>hits. example_hits 20 (get spec_A (identifier_key ?self)) = Some hits \<and>
        (\<forall>x \<in> set hits. fst x < length (references example_scores)))"
    by (simp add: example_defs get_def)
  from unsupported_link_method_rejected
         [of ?self "''complete''" example_scores spec_A "[spec_B, spec_C]"
             example_top_hits "example_hits 20", OF 1] 2
  show ?thesis by blast
qed

text \<open>
  C10, as the claim states it: with string identifiers, no edge brings in a node that is
  not an identifier. The candidate identifiers go through a numpy string array, which
  drops trailing NUL characters. With the two items whose identifiers are A followed by
  NUL, and B, the edge that B proposes ends at the string A: the graph has three nodes,
  and the node A is the identifier of no item.
\<close>

theorem trailing_nul_adds_node:
  "get spec_A0 (identifier_key single_network) = [CHR ''A'', CHR 0x00] \<and>
   get spec_B (identifier_key single_network) = ''B'' \<and>
   fst (create_network nul_top_hits single_network nul_scores) = None \<and>
   stored_nodes (snd (create_network nul_top_hits single_network nul_scores))
     = {[CHR ''A'', CHR 0x00], ''B'', ''A''} \<and>
   stored_weight (snd (create_network nul_top_hits single_network nul_scores)) ''B'' ''A''
     = Some (9/10) \<and>
   ''A'' \<noteq> [CHR ''A'', CHR 0x00] \<and> ''A'' \<noteq> ''B''"
  by (simp add: example_defs run_defs) auto

text \<open>
  C10, amended: when \<open>create_network\<close> returns, every identifier of a query is a node, every
  node is such an identifier or such an identifier less its trailing NUL characters, and
  both endpoints of every edge are nodes. When no identifier ends in a NUL character, the
  nodes of the stored graph are exactly the identifiers of the queries, and both
  endpoints of every edge are among them.
\<close>

theorem edge_endpoints_in_node_set:
  assumes "create_network gth self sc = (None, self')"
  shows "\<exists>g. graph self' = Some g \<and>
           (\<lambda>s. get s (identifier_key self)) ` set (queries sc) \<subseteq> nodes g \<and>
           nodes g \<subseteq> (\<lambda>s. get s (identifier_key self)) ` set (queries sc)
                     \<union> (\<lambda>s. numpy_str (get s (identifier_key self))) ` set (queries sc) \<and>
           (\<forall>a b w. adj g a b = Some w \<longrightarrow> a \<in> nodes g \<and> b \<in> nodes g) \<and>
           ((\<forall>s \<in> set (queries sc).
                numpy_str (get s (identifier_key self)) = get s (identifier_key self)) \<longrightarrow>
            nodes g = (\<lambda>s. get s (identifier_key self)) ` set (queries sc) \<and>
            (\<forall>a b w. adj g a b = Some w \<longrightarrow>
               a \<in> (\<lambda>s. get s (identifier_key self)) ` set (queries sc) \<and>
               b \<in> (\<lambda>s. get s (identifier_key self)) ` set (queries sc)))"
  using assms
proof (rule built_graph)
  fix g
  assume g: "graph self' = Some g"
    and 1: "(\<lambda>s. get s (identifier_key self)) ` set (queries sc) \<subseteq> nodes g"
    and 2: "nodes g \<subseteq> (\<lambda>s. get s (identifier_key self)) ` set (queries sc)
                   \<union> (\<lambda>s. numpy_str (get s (identifier_key self))) ` set (queries sc)"
    and e: "\<And>a b w. adj g a b = Some w \<Longrightarrow>
           a \<in> nodes g \<and> b \<in> nodes g \<and> a \<noteq> b \<and> (\<exists>c. cutoff self = Some c \<and> c \<le> w)"
  have 3: "\<forall>a b w. adj g a b = Some w \<longrightarrow> a \<in> nodes g \<and> b \<in> nodes g"
    using e by simp
  have 4: "nodes g = (\<lambda>s. get s (identifier_key self)) ` set (queries sc) \<and>
            (\<forall>a b w. adj g a b = Some w \<longrightarrow>
               a \<in> (\<lambda>s. get s (identifier_key self)) ` set (queries sc) \<and>
               b \<in> (\<lambda>s. get s (identifier_key self)) ` set (queries sc))"
    if "\<forall>s \<in> set (queries sc).
          numpy_str (get s (identifier_key self)) = get s (identifier_key self)"
  proof -
    have n: "nodes g = (\<lambda>s. get s (identifier_key self)) ` set (queries sc)"
      using assms g that by (rule built_graph_nodes)
    from 3 show ?thesis unfolding n [symmetric] by simp
  qed
  from g 1 2 3 4 show ?thesis by simp
qed

text \<open>
  The example with \<open>max_links = 1\<close> and cutoff 0.3: the build returns with the edges A-B
  and A-C, and the nodes are A, B and C.
\<close>

theorem edge_endpoints_in_node_set_witness:
  "create_network example_top_hits capped_network example_scores
     = (None, snd (create_network example_top_hits capped_network example_scores)) \<and>
   numpy_str (get spec_A (identifier_key capped_network)) = get spec_A (identifier_key capped_network) \<and>
   numpy_str (get spec_B (identifier_key capped_network)) = get spec_B (identifier_key capped_network) \<and>
   numpy_str (get spec_C (identifier_key capped_network)) = get spec_C (identifier_key capped_network) \<and>
   (\<exists>g. graph (snd (create_network example_top_hits capped_network example_scores)) = Some g \<and>
        nodes g = {''A'', ''B'', ''C''} \<and> adj g ''A'' ''C'' = Some (5/10) \<and>
        ''A'' \<in> nodes g \<and> ''C'' \<in> nodes g)"
proof -
  let ?r = "snd (create_network example_top_hits capped_network example_scores)"
  let ?ids = "(\<lambda>s. get s (identifier_key capped_network)) ` set (queries example_scores)"
  have h: "create_network example_top_hits capped_network example_scores = (None, ?r)"
    by (simp add: example_defs run_defs)
  have nul: "numpy_str (get spec_A (identifier_key capped_network))
               = get spec_A (identifier_key capped_network)"
    "numpy_str (get spec_B (identifier_key capped_network))
               = get spec_B (identifier_key capped_network)"
    "numpy_str (get spec_C (identifier_key capped_network))
               = get spec_C (identifier_key capped_network)"
    by (simp_all add: example_defs get_def numpy_str_def)
  have guard: "\<forall>s \<in> set (queries example_scores).
      numpy_str (get s (identifier_key capped_network)) = get s (identifier_key capped_network)"
    using nul by (simp add: example_scores_def)
  have ids: "?ids = {''A'', ''B'', ''C''}"
    by (simp add: example_defs get_def)
  have w: "stored_weight ?r ''A'' ''C'' = Some (5/10)"
    by (simp add: example_defs run_defs)
  from edge_endpoints_in_node_set [OF h] obtain g where
    g: "graph ?r = Some g"
    and guarded: "(\<forall>s \<in> set (queries example_scores).
                numpy_str (get s (identifier_key capped_network))
                  = get s (identifier_key capped_network)) \<longrightarrow>
            nodes g = ?ids \<and>
            (\<forall>a b w. adj g a b = Some w \<longrightarrow> a \<in> ?ids \<and> b \<in> ?ids)"
    by (elim exE conjE)
  note r = guarded [THEN mp, OF guard]
  have n: "nodes g = {''A'', ''B'', ''C''}"
    using r [THEN conjunct1] unfolding ids .
  have e: "adj g ''A'' ''C'' = Some (5/10)"
    using w by (simp add: stored_weight_def g)
  note in_ids = r [THEN conjunct2, rule_format, OF e, folded r [THEN conjunct1]]
  have ex: "\<exists>g. graph ?r = Some g \<and> nodes g = {''A'', ''B'', ''C''} \<and>
              adj g ''A'' ''C'' = Some (5/10) \<and> ''A'' \<in> nodes g \<and> ''C'' \<in> nodes g"
    using g n e in_ids [THEN conjunct1] in_ids [THEN conjunct2]
    by (intro exI [of _ g] conjI)
  show ?thesis
    by (rule conjI [OF h conjI [OF nul(1) conjI [OF nul(2) conjI [OF nul(3) ex]]]])
qed


end
